theory Spec2Isabelle
  imports Main "HOL-Library.Log_Nat"
begin

section \<open>Strings\<close>

text \<open>
  A JavaScript string is a sequence of UTF-16 code units. A code unit is modelled by its
  number, so that the four non-ASCII keys of \<open>symbolMap\<close> and the Unicode members of the
  regular-expression classes \<open>.\<close> and \<open>\s\<close> are single elements, as they are for
  \<open>split("")\<close> and for the regular-expression engine. \<open>js\<close> turns an ASCII literal
  into such a string.
\<close>

type_synonym jschar = nat
type_synonym jsstring = "jschar list"

definition js :: "string \<Rightarrow> jsstring" where
  "js s = map of_char s"

text \<open>The class \<open>\d\<close>, that is \<open>[0-9]\<close>.\<close>

definition isDigit :: "jschar \<Rightarrow> bool" where
  "isDigit c = (48 \<le> c \<and> c \<le> 57)"

text \<open>
  Line terminators (LF, CR, U+2028, U+2029): the characters that \<open>.\<close> does not match.
\<close>

definition isLineTerminator :: "jschar \<Rightarrow> bool" where
  "isLineTerminator c = (c = 10 \<or> c = 13 \<or> c = 8232 \<or> c = 8233)"

section \<open>Symbol map and normalisation\<close>

text \<open>
  \<open>symbolMap\<close> has four keys, each one character long: the multiplication sign U+00D7
  (mapped to \<open>*\<close>), the division sign U+00F7 (to \<open>/\<close>), the minus sign U+2212 and
  the en dash U+2013 (both to \<open>-\<close>).
\<close>

definition symbolMap :: "jsstring \<rightharpoonup> jsstring" where
  "symbolMap = map_of [([215], js ''*''), ([247], js ''/''), ([8722], js ''-''), ([8211], js ''-'')]"

text \<open>
  \<^verbatim>\<open>val in symbolMap\<close> also holds for the property names that every object inherits from
  \<open>Object.prototype\<close>. For these the lookup yields a built-in function (or the prototype
  object), and the text that \<open>+=\<close> appends is the engine's rendering of it.
\<close>

definition objectPrototypeKeys :: "jsstring list" where
  "objectPrototypeKeys =
     [js ''constructor'', js ''__defineGetter__'', js ''__defineSetter__'',
      js ''hasOwnProperty'', js ''__lookupGetter__'', js ''__lookupSetter__'',
      js ''isPrototypeOf'', js ''propertyIsEnumerable'', js ''toString'',
      js ''valueOf'', js ''__proto__'', js ''toLocaleString'']"

text \<open>
  \<^verbatim>\<open>symbolMap[ch] || ch\<close> for a one-character string \<open>ch\<close>; no inherited property
  has a one-character name, and every value of the map is a non-empty string.
\<close>

definition mapSymbol :: "jschar \<Rightarrow> jsstring" where
  "mapSymbol ch = (case symbolMap [ch] of Some v \<Rightarrow> v | None \<Rightarrow> [ch])"

text \<open>
  \<^verbatim>\<open>
  function normalizeExpression(input) {
    let s = input.split("").map((ch) => symbolMap[ch] || ch).join("");
    s = s.replace(/\^/g, "**");
    return s;
  }\<close>
\<close>

definition replaceCaret :: "jsstring \<Rightarrow> jsstring" where
  "replaceCaret s = concat (map (\<lambda>c. if c = 94 then js ''**'' else [c]) s)"

definition normalizeExpression :: "jsstring \<Rightarrow> jsstring" where
  "normalizeExpression input = replaceCaret (concat (map mapSymbol input))"

section \<open>The trailing-token match\<close>

text \<open>
  \<^verbatim>\<open>state.expr.match(/(.*?)(-?\d*\.?\d*)$/)\<close>

  The second group is followed by \<open>$\<close>, so for a given start of the group it has to match
  the whole rest of the string. \<open>tokenRest\<close> is what the greedy scan
  \<open>-?\<close>, \<open>\d*\<close>, \<open>\.?\<close>, \<open>\d*\<close> leaves over; giving back a character the
  scan has taken never helps the match to reach the end, so the rest matches the group
  exactly when nothing is left over.
\<close>

definition dropMinus :: "jsstring \<Rightarrow> jsstring" where
  "dropMinus s = (case s of [] \<Rightarrow> [] | c # cs \<Rightarrow> if c = 45 then cs else s)"

definition dropDot :: "jsstring \<Rightarrow> jsstring" where
  "dropDot s = (case s of [] \<Rightarrow> [] | c # cs \<Rightarrow> if c = 46 then cs else s)"

definition tokenRest :: "jsstring \<Rightarrow> jsstring" where
  "tokenRest s = dropWhile isDigit (dropDot (dropWhile isDigit (dropMinus s)))"

definition matchesToken :: "jsstring \<Rightarrow> bool" where
  "matchesToken s = (tokenRest s = [])"

text \<open>
  One attempt of the matcher at a fixed start: the lazy group \<open>(.*?)\<close> takes no
  character, then one, then two, and so on, and stops at the first length for which the rest
  matches the token group. It cannot take a line terminator.
\<close>

fun lazyPrefix :: "jsstring \<Rightarrow> (jsstring \<times> jsstring) option" where
  "lazyPrefix [] = (if matchesToken [] then Some ([], []) else None)"
| "lazyPrefix (c # cs) =
     (if matchesToken (c # cs) then Some ([], c # cs)
      else if isLineTerminator c then None
      else map_option (\<lambda>(p, l). (c # p, l)) (lazyPrefix cs))"

text \<open>
  \<open>match\<close> without the \<open>g\<close> flag tries the start positions 0, 1, 2, ... in turn and
  returns the groups of the first attempt that succeeds, or null.
\<close>

fun reMatch :: "jsstring \<Rightarrow> (jsstring \<times> jsstring) option" where
  "reMatch [] = lazyPrefix []"
| "reMatch (c # cs) =
     (case lazyPrefix (c # cs) of Some r \<Rightarrow> Some r | None \<Rightarrow> reMatch cs)"

text \<open>The part of a string after its last line terminator.\<close>

fun afterLastTerminator :: "jsstring \<Rightarrow> jsstring" where
  "afterLastTerminator [] = []"
| "afterLastTerminator (c # cs) =
     (if \<exists>t \<in> set (c # cs). isLineTerminator t then afterLastTerminator cs else c # cs)"

section \<open>Numbers\<close>

text \<open>
  A JavaScript Number is an IEEE 754 binary64 value. A finite one is modelled by the rational
  number it denotes, and every arithmetic result goes through \<open>roundDouble\<close>, the rounding
  to the nearest binary64 value (ties to even, overflow to an infinity). The two zeros are not
  told apart: the code below never divides by a zero (\<open>1 / num\<close> is guarded by
  \<open>num === 0\<close>), \<open>===\<close> and \<open><\<close> equate them, and \<open>toString\<close> renders both as
  \<open>0\<close>.
\<close>

datatype jsnum = Fin rat | PInf | NInf | NaN

text \<open>\<open>ilog2 q\<close> is the integer \<open>e\<close> with \<open>2^e \<le> q < 2^(e+1)\<close>, for \<open>q > 0\<close>.\<close>

definition ilog2 :: "rat \<Rightarrow> int" where
  "ilog2 q = (if 1 \<le> q then bitlen \<lfloor>q\<rfloor> - 1 else - bitlen (\<lceil>1 / q\<rceil> - 1))"

definition roundTiesToEven :: "rat \<Rightarrow> int" where
  "roundTiesToEven m =
     (let f = \<lfloor>m\<rfloor>; r = m - of_int f
      in if r < 1 / 2 then f else if 1 / 2 < r then f + 1 else if even f then f else f + 1)"

text \<open>
  The spacing of the binary64 values around \<open>a > 0\<close>: 53 significant bits, and the fixed
  spacing \<open>2^-1074\<close> of the subnormal range below \<open>2^-1022\<close>.
\<close>

definition ulp :: "rat \<Rightarrow> rat" where
  "ulp a = 2 powi (max (ilog2 a) (- 1022) - 52)"

definition roundDouble :: "rat \<Rightarrow> jsnum" where
  "roundDouble q =
     (if q = 0 then Fin 0
      else
        let v = of_int (roundTiesToEven (\<bar>q\<bar> / ulp \<bar>q\<bar>)) * ulp \<bar>q\<bar>
        in if 2 ^ 1024 \<le> v then (if 0 < q then PInf else NInf)
           else Fin (if 0 < q then v else - v))"

text \<open>The operators \<open>*\<close>, \<open>/\<close>, \<open>+\<close>, \<open><=\<close>, \<open><\<close> and \<open>===\<close> on Numbers.\<close>

fun fmul :: "jsnum \<Rightarrow> jsnum \<Rightarrow> jsnum" where
  "fmul NaN y = NaN"
| "fmul x NaN = NaN"
| "fmul (Fin a) (Fin b) = roundDouble (a * b)"
| "fmul (Fin a) PInf = (if a = 0 then NaN else if 0 < a then PInf else NInf)"
| "fmul (Fin a) NInf = (if a = 0 then NaN else if 0 < a then NInf else PInf)"
| "fmul PInf (Fin b) = (if b = 0 then NaN else if 0 < b then PInf else NInf)"
| "fmul NInf (Fin b) = (if b = 0 then NaN else if 0 < b then NInf else PInf)"
| "fmul PInf PInf = PInf"
| "fmul PInf NInf = NInf"
| "fmul NInf PInf = NInf"
| "fmul NInf NInf = PInf"

text \<open>A zero divisor is read as \<open>+0\<close>; no division of the code has one.\<close>

fun fdiv :: "jsnum \<Rightarrow> jsnum \<Rightarrow> jsnum" where
  "fdiv NaN y = NaN"
| "fdiv x NaN = NaN"
| "fdiv (Fin a) (Fin b) =
     (if b = 0 then (if a = 0 then NaN else if 0 < a then PInf else NInf)
      else roundDouble (a / b))"
| "fdiv (Fin a) PInf = Fin 0"
| "fdiv (Fin a) NInf = Fin 0"
| "fdiv PInf (Fin b) = (if 0 \<le> b then PInf else NInf)"
| "fdiv NInf (Fin b) = (if 0 \<le> b then NInf else PInf)"
| "fdiv PInf PInf = NaN"
| "fdiv PInf NInf = NaN"
| "fdiv NInf PInf = NaN"
| "fdiv NInf NInf = NaN"

fun fadd :: "jsnum \<Rightarrow> jsnum \<Rightarrow> jsnum" where
  "fadd NaN y = NaN"
| "fadd x NaN = NaN"
| "fadd (Fin a) (Fin b) = roundDouble (a + b)"
| "fadd (Fin a) PInf = PInf"
| "fadd (Fin a) NInf = NInf"
| "fadd PInf (Fin b) = PInf"
| "fadd NInf (Fin b) = NInf"
| "fadd PInf PInf = PInf"
| "fadd PInf NInf = NaN"
| "fadd NInf PInf = NaN"
| "fadd NInf NInf = NInf"

fun fle :: "jsnum \<Rightarrow> jsnum \<Rightarrow> bool" where
  "fle NaN y = False"
| "fle x NaN = False"
| "fle (Fin a) (Fin b) = (a \<le> b)"
| "fle NInf y = True"
| "fle x PInf = True"
| "fle PInf y = False"
| "fle x NInf = False"

fun flt :: "jsnum \<Rightarrow> jsnum \<Rightarrow> bool" where
  "flt NaN y = False"
| "flt x NaN = False"
| "flt (Fin a) (Fin b) = (a < b)"
| "flt PInf y = False"
| "flt x NInf = False"
| "flt NInf y = True"
| "flt x PInf = True"

definition feq :: "jsnum \<Rightarrow> jsnum \<Rightarrow> bool" where
  "feq x y = (x \<noteq> NaN \<and> x = y)"

text \<open>The unary minus on Numbers.\<close>

fun fneg :: "jsnum \<Rightarrow> jsnum" where
  "fneg (Fin v) = Fin (- v)"
| "fneg PInf = NInf"
| "fneg NInf = PInf"
| "fneg NaN = NaN"

text \<open>\<open>Math.abs\<close>, and the constants \<open>Math.PI\<close>, \<open>Math.E\<close> and \<open>Math.LN10\<close>.\<close>

fun Math_abs :: "jsnum \<Rightarrow> jsnum" where
  "Math_abs (Fin a) = Fin \<bar>a\<bar>"
| "Math_abs PInf = PInf"
| "Math_abs NInf = PInf"
| "Math_abs NaN = NaN"

definition Math_PI :: jsnum where
  "Math_PI = Fin (884279719003555 / 2 ^ 48)"

definition Math_E :: jsnum where
  "Math_E = Fin (6121026514868073 / 2 ^ 51)"

definition Math_LN10 :: jsnum where
  "Math_LN10 = Fin (5184960683398422 / 2 ^ 51)"

text \<open>
  The values of the type that are Numbers: a finite one is a binary64 value when rounding
  leaves it as it is.
\<close>

definition isNumber :: "jsnum \<Rightarrow> bool" where
  "isNumber x = (case x of Fin q \<Rightarrow> roundDouble q = Fin q | _ \<Rightarrow> True)"

text \<open>\<open>Number.isInteger\<close>\<close>

definition isInteger :: "jsnum \<Rightarrow> bool" where
  "isInteger x = (case x of Fin q \<Rightarrow> of_int \<lfloor>q\<rfloor> = q | _ \<Rightarrow> False)"

subsection \<open>Number to text\<close>

text \<open>The decimal digits of a natural number.\<close>

fun digitsOf :: "nat \<Rightarrow> jsstring" where
  "digitsOf n = (if n < 10 then [48 + n] else digitsOf (n div 10) @ [48 + n mod 10])"

declare digitsOf.simps [simp del]

text \<open>\<open>decimalExponent q\<close> is the integer \<open>n\<close> with \<open>10^(n-1) \<le> q < 10^n\<close>, for \<open>q > 0\<close>.\<close>

definition decimalExponent :: "rat \<Rightarrow> int" where
  "decimalExponent q =
     (if 1 \<le> q then int (floorlog 10 (nat \<lfloor>q\<rfloor>))
      else 1 - int (floorlog 10 (nat (\<lceil>1 / q\<rceil> - 1))))"

text \<open>
  \<open>Number::toString\<close> writes a finite \<open>q > 0\<close> with the digits of the integer \<open>s\<close>,
  where \<open>n\<close>, \<open>k\<close> and \<open>s\<close> are such that \<open>s\<close> has \<open>k\<close> digits, \<open>s \<times> 10^(n-k)\<close>
  rounds to \<open>q\<close>, and \<open>k\<close> is as small as possible; of several such \<open>s\<close> it takes the
  one nearest to \<open>q\<close>. For a given \<open>k\<close> only the two \<open>k\<close>-digit numbers around
  \<open>q / 10^(n-k)\<close> can do. Seventeen digits identify every binary64 value, so the search
  \<open>shortest\<close> ends by \<open>k = 17\<close>; should it not, the digits are those of the exact
  decimal expansion of \<open>q\<close>, which every binary64 value has.
\<close>

fun decimalPlaces :: "rat \<Rightarrow> nat \<Rightarrow> nat \<Rightarrow> nat" where
  "decimalPlaces q j 0 = j"
| "decimalPlaces q j (Suc fuel) =
     (if of_int \<lfloor>q * 10 ^ j\<rfloor> = q * 10 ^ j then j else decimalPlaces q (j + 1) fuel)"

definition exactDigits :: "rat \<Rightarrow> int \<times> nat \<times> nat" where
  "exactDigits q =
     (let j = decimalPlaces q 0 1074;
          s = nat \<lfloor>q * 10 ^ j\<rfloor>;
          k = length (digitsOf s)
      in (int k - int j, k, s))"

definition candidate :: "rat \<Rightarrow> int \<Rightarrow> nat \<Rightarrow> int option" where
  "candidate q n k =
     (let scale = 10 powi (n - int k);
          lo = \<lfloor>q / scale\<rfloor>;
          hi = lo + 1;
          okLo = (roundDouble (of_int lo * scale) = Fin q);
          okHi = (roundDouble (of_int hi * scale) = Fin q);
          dLo = q - of_int lo * scale;
          dHi = of_int hi * scale - q
      in if okLo \<and> okHi then
           (if dLo < dHi then Some lo else if dHi < dLo then Some hi
            else if even lo then Some lo else Some hi)
         else if okLo then Some lo
         else if okHi then Some hi
         else None)"

fun shortest :: "rat \<Rightarrow> int \<Rightarrow> nat \<Rightarrow> nat \<Rightarrow> int \<times> nat \<times> nat" where
  "shortest q n k 0 = exactDigits q"
| "shortest q n k (Suc fuel) =
     (case candidate q n k of
        Some s \<Rightarrow> (if s = 10 ^ k then (n + 1, k, 10 ^ (k - 1)) else (n, k, nat s))
      | None \<Rightarrow> shortest q n (k + 1) fuel)"

definition positiveToString :: "rat \<Rightarrow> jsstring" where
  "positiveToString q =
     (let (n, k, s) = shortest q (decimalExponent q) 1 17;
          ds = digitsOf s
      in if int k \<le> n \<and> n \<le> 21 then ds @ replicate (nat (n - int k)) 48
         else if 0 < n \<and> n \<le> 21 then take (nat n) ds @ js ''.'' @ drop (nat n) ds
         else if - 6 < n \<and> n \<le> 0 then js ''0.'' @ replicate (nat (- n)) 48 @ ds
         else
           let e = n - 1;
               ex = (if 0 \<le> e then js ''+'' else js ''-'') @ digitsOf (nat \<bar>e\<bar>)
           in if k = 1 then ds @ js ''e'' @ ex
              else take 1 ds @ js ''.'' @ drop 1 ds @ js ''e'' @ ex)"

text \<open>\<open>x.toString()\<close>\<close>

definition numToString :: "jsnum \<Rightarrow> jsstring" where
  "numToString x =
     (case x of
        NaN \<Rightarrow> js ''NaN''
      | PInf \<Rightarrow> js ''Infinity''
      | NInf \<Rightarrow> js ''-Infinity''
      | Fin q \<Rightarrow>
          if q = 0 then js ''0''
          else if q < 0 then js ''-'' @ positiveToString (- q)
          else positiveToString q)"

text \<open>
  \<open>x.toFixed(f)\<close>: the integer \<open>n\<close> nearest to \<open>|x| \<times> 10^f\<close> (the larger one of
  two), written with \<open>f\<close> digits after the point.
\<close>

definition toFixed :: "jsnum \<Rightarrow> nat \<Rightarrow> jsstring" where
  "toFixed x f =
     (case x of
        Fin q \<Rightarrow>
          if 10 ^ 21 \<le> \<bar>q\<bar> then numToString x
          else
            let n = \<lfloor>\<bar>q\<bar> * 10 ^ f + 1 / 2\<rfloor>;
                ds = digitsOf (nat n);
                m = (if f = 0 then ds
                     else
                       let padded = replicate (f + 1 - length ds) 48 @ ds;
                           k = length padded
                       in take (k - f) padded @ js ''.'' @ drop (k - f) padded)
            in (if q < 0 then js ''-'' else []) @ m
      | _ \<Rightarrow> numToString x)"

subsection \<open>Text to number\<close>

text \<open>White space and line terminators: what \<open>parseFloat\<close> skips and what \<open>\s\<close> matches.\<close>

definition isWhiteSpace :: "jschar \<Rightarrow> bool" where
  "isWhiteSpace c =
     (c \<in> {9, 10, 11, 12, 13, 32, 160, 5760, 8232, 8233, 8239, 8287, 12288, 65279}
      \<or> (8192 \<le> c \<and> c \<le> 8202))"

definition digitsValue :: "jsstring \<Rightarrow> nat" where
  "digitsValue ds = foldl (\<lambda>v c. 10 * v + (c - 48)) 0 ds"

text \<open>The value of an exponent part \<open>e\<close> or \<open>E\<close>, sign, digits at the start of \<open>r\<close>, or 0.\<close>

definition exponentPart :: "jsstring \<Rightarrow> int" where
  "exponentPart r =
     (case r of
        [] \<Rightarrow> 0
      | c # cs \<Rightarrow>
          if c = 101 \<or> c = 69 then
            (let neg = (cs \<noteq> [] \<and> hd cs = 45);
                 ds = takeWhile isDigit
                        (if cs \<noteq> [] \<and> (hd cs = 45 \<or> hd cs = 43) then tl cs else cs)
             in if ds = [] then 0
                else if neg then - int (digitsValue ds) else int (digitsValue ds))
          else 0)"

text \<open>
  An exponent part as \<open>Number::toString\<close> writes it: \<open>e\<close>, a sign, and the digits of a
  natural number.
\<close>

definition exponentText :: "int \<Rightarrow> jsstring" where
  "exponentText e = 101 # (if 0 \<le> e then 43 else 45) # digitsOf (nat \<bar>e\<bar>)"

text \<open>
  The value of the longest prefix of \<open>u\<close> that is an unsigned decimal literal: digits, an
  optional point with more digits, an optional exponent part; at least one digit before the
  exponent. \<open>None\<close> when \<open>u\<close> has no such prefix.
\<close>

definition strDecimalLiteral :: "jsstring \<Rightarrow> rat option" where
  "strDecimalLiteral u =
     (let ip = takeWhile isDigit u;
          r1 = dropWhile isDigit u;
          dot = (r1 \<noteq> [] \<and> hd r1 = 46);
          fp = (if dot then takeWhile isDigit (tl r1) else []);
          r2 = (if dot then dropWhile isDigit (tl r1) else r1)
      in if ip = [] \<and> fp = [] then None
         else Some (of_nat (digitsValue (ip @ fp)) / 10 ^ length fp * 10 powi exponentPart r2))"

text \<open>
  \<open>parseFloat(s)\<close>: skip leading white space, read a sign, then \<open>Infinity\<close> or the
  longest prefix that is a decimal literal, and round its value; \<open>NaN\<close> when there is
  no such prefix.
\<close>

definition parseFloat :: "jsstring \<Rightarrow> jsnum" where
  "parseFloat s =
     (let t = dropWhile isWhiteSpace s;
          neg = (t \<noteq> [] \<and> hd t = 45);
          u = (if t \<noteq> [] \<and> (hd t = 45 \<or> hd t = 43) then tl t else t)
      in if take 8 u = js ''Infinity'' then (if neg then NInf else PInf)
         else
           (case strDecimalLiteral u of
              None \<Rightarrow> NaN
            | Some m \<Rightarrow> roundDouble (if neg then - m else m)))"

subsection \<open>The result formatter\<close>

text \<open>
  \<^verbatim>\<open>
  function formatResult(n) {
    if (Number.isInteger(n)) return n.toString();
    return parseFloat(n.toFixed(12)).toString();
  }\<close>
  The basic script has the same function with \<open>toFixed(10)\<close>.
\<close>

definition formatResultWith :: "nat \<Rightarrow> jsnum \<Rightarrow> jsstring" where
  "formatResultWith places n =
     (if isInteger n then numToString n else numToString (parseFloat (toFixed n places)))"

definition formatResult :: "jsnum \<Rightarrow> jsstring" where
  "formatResult = formatResultWith 12"

definition formatResult_basic :: "jsnum \<Rightarrow> jsstring" where
  "formatResult_basic = formatResultWith 10"

text \<open>
  What the specification calls the rounded value: \<open>q\<close> rounded to \<open>p\<close> decimal places,
  a tie going away from zero, and from there to the nearest Number.
\<close>

definition roundedTo :: "nat \<Rightarrow> rat \<Rightarrow> jsnum" where
  "roundedTo p q =
     roundDouble ((if q < 0 then - 1 else 1) * of_int \<lfloor>\<bar>q\<bar> * 10 ^ p + 1 / 2\<rfloor> / 10 ^ p)"

section \<open>State\<close>

text \<open>
  The globals \<open>state.expr\<close> and \<open>angleMode\<close>, and what the functions below do to the
  display element: its text, its \<open>error\<close> class, and the number of reset timers that
  \<open>showError\<close> has scheduled and that have not fired yet.
\<close>

record calc =
  expr :: jsstring
  angleMode :: jsstring
  display :: jsstring
  errorClass :: bool
  timers :: nat

text \<open>
  The state after the script has loaded: \<open>clearAll(); updateDisplay();\<close> on the empty
  expression, with the angle mode read from the session storage (\<open>"deg"\<close> when nothing
  is stored).
\<close>

definition initialState :: "jsstring \<Rightarrow> calc" where
  "initialState mode =
     \<lparr>expr = [], angleMode = mode, display = js ''0'', errorClass = False, timers = 0\<rparr>"

text \<open>\<^verbatim>\<open>displayEl.textContent = state.expr || "0";\<close>\<close>

definition updateDisplay :: "calc \<Rightarrow> calc" where
  "updateDisplay st = st\<lparr>display := (if expr st = [] then js ''0'' else expr st)\<rparr>"

text \<open>
  \<^verbatim>\<open>
  function showError(msg) {
    displayEl.textContent = msg;
    displayEl.classList.add("error");
    setTimeout(() => { displayEl.classList.remove("error"); state.expr = ""; updateDisplay(); }, 900);
  }\<close>
  The callback is \<open>timerFires\<close>; it runs on its own, after the call that scheduled it
  has returned.
\<close>

definition showError :: "jsstring \<Rightarrow> calc \<Rightarrow> calc" where
  "showError msg st = st\<lparr>display := msg, errorClass := True, timers := Suc (timers st)\<rparr>"

definition timerFires :: "calc \<Rightarrow> calc" where
  "timerFires st = updateDisplay (st\<lparr>errorClass := False, expr := [], timers := timers st - 1\<rparr>)"

section \<open>What the engine provides\<close>

text \<open>
  The value that \<open>Function(body)()\<close> gives: a Number, or some other value (the allowed
  characters can spell a regular-expression literal, nothing else that is not a Number), or
  an exception, thrown by the compilation of the body or by its run.
\<close>

datatype jsvalue = Number jsnum | NotNumber

datatype jsresult = Returns jsvalue | Throws

text \<open>
  The script evaluator and the functions of \<open>Math\<close> whose results the language leaves to
  the implementation are parameters of the model. \<open>Math.log10\<close> may be missing, which the
  code tests for.
\<close>

record host =
  evalFunction :: "jsstring \<Rightarrow> jsresult"
  Math_sin :: "jsnum \<Rightarrow> jsnum"
  Math_cos :: "jsnum \<Rightarrow> jsnum"
  Math_tan :: "jsnum \<Rightarrow> jsnum"
  Math_asin :: "jsnum \<Rightarrow> jsnum"
  Math_acos :: "jsnum \<Rightarrow> jsnum"
  Math_atan :: "jsnum \<Rightarrow> jsnum"
  Math_log :: "jsnum \<Rightarrow> jsnum"
  Math_log10 :: "(jsnum \<Rightarrow> jsnum) option"
  Math_sqrt :: "jsnum \<Rightarrow> jsnum"
  Math_pow :: "jsnum \<Rightarrow> jsnum \<Rightarrow> jsnum"
  Math_exp :: "jsnum \<Rightarrow> jsnum"

text \<open>
  A host for examples: its evaluator gives the same answer for every body, and its
  \<open>Math\<close> functions give \<open>NaN\<close>.
\<close>

definition constHost :: "jsresult \<Rightarrow> host" where
  "constHost r =
     \<lparr>evalFunction = (\<lambda>body. r),
      Math_sin = (\<lambda>x. NaN), Math_cos = (\<lambda>x. NaN), Math_tan = (\<lambda>x. NaN),
      Math_asin = (\<lambda>x. NaN), Math_acos = (\<lambda>x. NaN), Math_atan = (\<lambda>x. NaN),
      Math_log = (\<lambda>x. NaN), Math_log10 = None, Math_sqrt = (\<lambda>x. NaN),
      Math_pow = (\<lambda>x y. NaN), Math_exp = (\<lambda>x. NaN)\<rparr>"

section \<open>Editing the expression\<close>

text \<open>The test \<^verbatim>\<open>/^[0-9]$/.test(val)\<close>.\<close>

definition isSingleDigit :: "jsstring \<Rightarrow> bool" where
  "isSingleDigit val = (case val of [c] \<Rightarrow> isDigit c | _ \<Rightarrow> False)"

text \<open>
  \<^verbatim>\<open>
  function appendValue(val) {
    if (val in symbolMap) val = symbolMap[val];
    if (state.expr === "0" && /^[0-9]$/.test(val)) { state.expr = val; }
    else { state.expr += val; }
    updateDisplay();
  }\<close>
  The result is \<open>None\<close> when \<open>val\<close> names an inherited property: what is appended
  then is the engine's text for a built-in object, which is left open here.
\<close>

definition appendValue :: "jsstring \<Rightarrow> calc \<Rightarrow> calc option" where
  "appendValue val st =
     (if val \<in> set objectPrototypeKeys then None
      else
        let val' = (case symbolMap val of Some v \<Rightarrow> v | None \<Rightarrow> val)
        in Some (updateDisplay
             (if expr st = js ''0'' \<and> isSingleDigit val' then st\<lparr>expr := val'\<rparr>
              else st\<lparr>expr := expr st @ val'\<rparr>)))"

text \<open>
  \<^verbatim>\<open>
  function clearAll() { state.expr = ""; updateDisplay(); displayEl.classList.remove("error"); }
  function deleteLast() { state.expr = state.expr.slice(0, -1); updateDisplay();
                          displayEl.classList.remove("error"); }\<close>
\<close>

definition clearAll :: "calc \<Rightarrow> calc" where
  "clearAll st = (updateDisplay (st\<lparr>expr := []\<rparr>))\<lparr>errorClass := False\<rparr>"

definition deleteLast :: "calc \<Rightarrow> calc" where
  "deleteLast st = (updateDisplay (st\<lparr>expr := butlast (expr st)\<rparr>))\<lparr>errorClass := False\<rparr>"

text \<open>
  \<^verbatim>\<open>
  function negateLastNumber() {
    const m = state.expr.match(/(.*?)(-?\d*\.?\d*)$/);
    if (!m) return;
    let prefix = m[1] || "";
    let last = m[2] || "";
    if (!last) { state.expr += "-"; }
    else {
      if (last.startsWith("-")) last = last.slice(1);
      else last = "-" + last;
      state.expr = prefix + last;
    }
    updateDisplay();
  }\<close>
\<close>

definition negateLastNumber :: "calc \<Rightarrow> calc" where
  "negateLastNumber st =
     (case reMatch (expr st) of
        None \<Rightarrow> st
      | Some (prefix, last') \<Rightarrow>
          updateDisplay
            (if last' = [] then st\<lparr>expr := expr st @ js ''-''\<rparr>
             else if hd last' = 45 then st\<lparr>expr := prefix @ tl last'\<rparr>
             else st\<lparr>expr := prefix @ (js ''-'' @ last')\<rparr>))"

text \<open>
  \<^verbatim>\<open>
  function percentLastNumber() {
    const m = state.expr.match(/(.*?)(-?\d*\.?\d*)$/);
    if (!m) return;
    let prefix = m[1] || "";
    let last = m[2] || "";
    if (!last) return;
    const num = parseFloat(last);
    if (isNaN(num)) return;
    const pct = (num / 100).toString();
    state.expr = prefix + pct;
    updateDisplay();
  }\<close>
\<close>

definition percentLastNumber :: "calc \<Rightarrow> calc" where
  "percentLastNumber st =
     (case reMatch (expr st) of
        None \<Rightarrow> st
      | Some (prefix, last') \<Rightarrow>
          if last' = [] then st
          else
            let num = parseFloat last'
            in if num = NaN then st
               else updateDisplay (st\<lparr>expr := prefix @ numToString (fdiv num (Fin 100))\<rparr>))"

section \<open>Scientific functions\<close>

text \<open>
  \<^verbatim>\<open>
  function factorial(n) {
    let res = 1;
    for (let i = 2; i <= n; i++) res *= i;
    return res;
  }\<close>
  From \<open>2^53\<close> on, \<open>i++\<close> no longer changes \<open>i\<close>, and the loop does not end for a
  larger \<open>n\<close>: the result is \<open>None\<close> then.
\<close>

partial_function (option) factorialLoop :: "jsnum \<Rightarrow> jsnum \<Rightarrow> jsnum \<Rightarrow> jsnum option" where
  "factorialLoop n i res =
     (if fle i n then factorialLoop n (fadd i (Fin 1)) (fmul res i) else Some res)"

definition factorial :: "jsnum \<Rightarrow> jsnum option" where
  "factorial n = factorialLoop n (Fin 2) (Fin 1)"

text \<open>
  \<^verbatim>\<open>
  const toRad = (x) => (angleMode === "deg" ? (x * Math.PI) / 180 : x);
  const fromRad = (x) => (angleMode === "deg" ? (x * 180) / Math.PI : x);\<close>
\<close>

definition toRad :: "calc \<Rightarrow> jsnum \<Rightarrow> jsnum" where
  "toRad st x = (if angleMode st = js ''deg'' then fdiv (fmul x Math_PI) (Fin 180) else x)"

definition fromRad :: "calc \<Rightarrow> jsnum \<Rightarrow> jsnum" where
  "fromRad st x = (if angleMode st = js ''deg'' then fdiv (fmul x (Fin 180)) Math_PI else x)"

text \<open>
  The \<open>switch (fn)\<close> of \<open>applySciFunction\<close>: a case assigns \<open>result\<close>, or shows an
  error and returns, and the default case returns. The outer \<open>None\<close> is a call of
  \<open>factorial\<close> that does not return.
\<close>

datatype switchResult = Result jsnum | Error jsstring | Default

definition switchFn :: "host \<Rightarrow> calc \<Rightarrow> jsstring \<Rightarrow> jsnum \<Rightarrow> switchResult option" where
  "switchFn h st fn num =
     (if fn = js ''sin'' then Some (Result (Math_sin h (toRad st num)))
      else if fn = js ''cos'' then Some (Result (Math_cos h (toRad st num)))
      else if fn = js ''tan'' then Some (Result (Math_tan h (toRad st num)))
      else if fn = js ''asin'' then Some (Result (fromRad st (Math_asin h num)))
      else if fn = js ''acos'' then Some (Result (fromRad st (Math_acos h num)))
      else if fn = js ''atan'' then Some (Result (fromRad st (Math_atan h num)))
      else if fn = js ''ln'' then Some (Result (Math_log h num))
      else if fn = js ''log10'' then
        Some (Result (case Math_log10 h of
                        Some log10 \<Rightarrow> log10 num
                      | None \<Rightarrow> fdiv (Math_log h num) Math_LN10))
      else if fn = js ''sqrt'' then Some (Result (Math_sqrt h num))
      else if fn = js ''pow2'' then Some (Result (Math_pow h num (Fin 2)))
      else if fn = js ''pow3'' then Some (Result (Math_pow h num (Fin 3)))
      else if fn = js ''exp'' then Some (Result (Math_exp h num))
      else if fn = js ''abs'' then Some (Result (Math_abs num))
      else if fn = js ''reciprocal'' then
        (if feq num (Fin 0) then Some (Error (js ''Math error''))
         else Some (Result (fdiv (Fin 1) num)))
      else if fn = js ''factorial'' then
        (if flt num (Fin 0) \<or> \<not> isInteger num then Some (Error (js ''Invalid''))
         else map_option Result (factorial num))
      else Some Default)"

text \<open>The names with a case in the \<open>switch\<close>.\<close>

definition evaluatingFunctions :: "jsstring list" where
  "evaluatingFunctions =
     [js ''sin'', js ''cos'', js ''tan'', js ''asin'', js ''acos'', js ''atan'', js ''ln'',
      js ''log10'', js ''sqrt'', js ''pow2'', js ''pow3'', js ''exp'', js ''abs'',
      js ''reciprocal'', js ''factorial'']"

text \<open>The test \<^verbatim>\<open>/[+\-*/^.(]$/.test(state.expr)\<close> of the \<open>pow\<close> branch.\<close>

definition endsInOperator :: "jsstring \<Rightarrow> bool" where
  "endsInOperator s = (s \<noteq> [] \<and> last s \<in> {43, 45, 42, 47, 94, 46, 40})"

text \<open>\<^verbatim>\<open>function replaceLast(repl) { state.expr = prefix + repl; updateDisplay(); }\<close>\<close>

definition replaceLast :: "jsstring \<Rightarrow> jsstring \<Rightarrow> calc \<Rightarrow> calc" where
  "replaceLast prefix repl st = updateDisplay (st\<lparr>expr := prefix @ repl\<rparr>)"

text \<open>
  \<^verbatim>\<open>
  function applySciFunction(fn) {
    const m = state.expr.match(/(.*?)(-?\d*\.?\d*)$/);
    let prefix = (m ? m[1] : "") || "";
    let last = (m ? m[2] : "") || "";
    if (fn === "pow") {
      if (state.expr === "" || /[+\-*/^.(]$/.test(state.expr)) { state.expr += "^"; }
      else { state.expr += "^"; }
      updateDisplay();
      return;
    }
    if (fn === "pi") { replaceLast(Math.PI.toString()); return; }
    if (fn === "e") { replaceLast(Math.E.toString()); return; }
    if (fn === "percent") { percentLastNumber(); return; }
    if (fn === "negate") { negateLastNumber(); return; }
    if (!last) { return; }
    const num = parseFloat(last);
    if (isNaN(num)) return;
    let result;
    switch (fn) { ... }
    if (result === Infinity || result === -Infinity || Number.isNaN(result)) {
      showError("Math error");
      return;
    }
    replaceLast(formatResult(result));
  }\<close>
\<close>

definition applySciFunction :: "host \<Rightarrow> jsstring \<Rightarrow> calc \<Rightarrow> calc option" where
  "applySciFunction h fn st =
     (let m = reMatch (expr st);
          prefix = (case m of Some (p, l) \<Rightarrow> p | None \<Rightarrow> []);
          last' = (case m of Some (p, l) \<Rightarrow> l | None \<Rightarrow> [])
      in if fn = js ''pow'' then
           Some (updateDisplay
             (if expr st = [] \<or> endsInOperator (expr st) then st\<lparr>expr := expr st @ js ''^''\<rparr>
              else st\<lparr>expr := expr st @ js ''^''\<rparr>))
         else if fn = js ''pi'' then Some (replaceLast prefix (numToString Math_PI) st)
         else if fn = js ''e'' then Some (replaceLast prefix (numToString Math_E) st)
         else if fn = js ''percent'' then Some (percentLastNumber st)
         else if fn = js ''negate'' then Some (negateLastNumber st)
         else if last' = [] then Some st
         else
           let num = parseFloat last'
           in if num = NaN then Some st
              else
                (case switchFn h st fn num of
                   None \<Rightarrow> None
                 | Some Default \<Rightarrow> Some st
                 | Some (Error msg) \<Rightarrow> Some (showError msg st)
                 | Some (Result result) \<Rightarrow>
                     if result = PInf \<or> result = NInf \<or> result = NaN
                     then Some (showError (js ''Math error'') st)
                     else Some (replaceLast prefix (formatResult result) st)))"

section \<open>Evaluation\<close>

text \<open>
  \<^verbatim>\<open>const allowedRE = /^[0-9+\-*/%^().\s]+$/;\<close> in the scientific script, and
  \<^verbatim>\<open>/^[0-9+\-*/%.()\s]+$/\<close> in the basic one.
\<close>

definition allowedChar :: "jschar \<Rightarrow> bool" where
  "allowedChar c = (isDigit c \<or> c \<in> {43, 45, 42, 47, 37, 94, 40, 41, 46} \<or> isWhiteSpace c)"

definition allowedRE :: "jsstring \<Rightarrow> bool" where
  "allowedRE s = (s \<noteq> [] \<and> (\<forall>c \<in> set s. allowedChar c))"

definition allowedChar_basic :: "jschar \<Rightarrow> bool" where
  "allowedChar_basic c = (isDigit c \<or> c \<in> {43, 45, 42, 47, 37, 46, 40, 41} \<or> isWhiteSpace c)"

definition allowedRE_basic :: "jsstring \<Rightarrow> bool" where
  "allowedRE_basic s = (s \<noteq> [] \<and> (\<forall>c \<in> set s. allowedChar_basic c))"

text \<open>
  \<^verbatim>\<open>exprRaw.replace(/[*+\-\/^%]$/, "")\<close> in the scientific script, and
  \<^verbatim>\<open>expr.replace(/[^0-9.)]$/, "")\<close> in the basic one: the last character is removed
  when it is in the class.
\<close>

definition stripTrailing :: "jsstring \<Rightarrow> jsstring" where
  "stripTrailing s = (if s \<noteq> [] \<and> last s \<in> {42, 43, 45, 47, 94, 37} then butlast s else s)"

definition stripTrailing_basic :: "jsstring \<Rightarrow> jsstring" where
  "stripTrailing_basic s =
     (if s \<noteq> [] \<and> \<not> (isDigit (last s) \<or> last s = 46 \<or> last s = 41) then butlast s else s)"

text \<open>The body \<^verbatim>\<open>`"use strict"; return (${safeExpr})`\<close> given to \<open>Function\<close>.\<close>

definition functionBody :: "jsstring \<Rightarrow> jsstring" where
  "functionBody safeExpr = [34] @ js ''use strict'' @ [34] @ js ''; return ('' @ safeExpr @ js '')''"

text \<open>The basic script's \<open>normalizeExpression\<close> maps the symbols and leaves the caret.\<close>

definition normalizeExpression_basic :: "jsstring \<Rightarrow> jsstring" where
  "normalizeExpression_basic input = concat (map mapSymbol input)"

text \<open>
  \<^verbatim>\<open>
  function calculate() {
    if (!state.expr) return;
    const exprRaw = normalizeExpression(state.expr);
    if (!allowedRE.test(exprRaw)) { showError("Invalid characters"); return; }
    const safeExpr = exprRaw.replace(/[*+\-\/^%]$/, "");
    try {
      const result = Function(`"use strict"; return (${safeExpr})`)();
      if (result === Infinity || result === -Infinity || Number.isNaN(result)) {
        showError("Math error");
        return;
      }
      state.expr = formatResult(result);
      updateDisplay();
    } catch (err) { showError("Error"); }
  }\<close>
  A result that is not a Number passes the three tests, and \<open>formatResult\<close> then throws
  at \<open>n.toFixed\<close>, which the \<open>catch\<close> turns into \<open>showError("Error")\<close>.
\<close>

definition calculate :: "host \<Rightarrow> calc \<Rightarrow> calc" where
  "calculate h st =
     (if expr st = [] then st
      else
        let exprRaw = normalizeExpression (expr st)
        in if \<not> allowedRE exprRaw then showError (js ''Invalid characters'') st
           else
             let safeExpr = stripTrailing exprRaw
             in (case evalFunction h (functionBody safeExpr) of
                   Throws \<Rightarrow> showError (js ''Error'') st
                 | Returns NotNumber \<Rightarrow> showError (js ''Error'') st
                 | Returns (Number result) \<Rightarrow>
                     if result = PInf \<or> result = NInf \<or> result = NaN
                     then showError (js ''Math error'') st
                     else updateDisplay (st\<lparr>expr := formatResult result\<rparr>)))"

text \<open>
  The basic script's \<open>calculate\<close> is the same function over its own
  \<open>normalizeExpression\<close>, \<open>allowedRE\<close>, trailing-character class and
  \<open>formatResult\<close>.
\<close>

definition calculate_basic :: "host \<Rightarrow> calc \<Rightarrow> calc" where
  "calculate_basic h st =
     (if expr st = [] then st
      else
        let expr' = normalizeExpression_basic (expr st)
        in if \<not> allowedRE_basic expr' then showError (js ''Invalid characters'') st
           else
             let safeExpr = stripTrailing_basic expr'
             in (case evalFunction h (functionBody safeExpr) of
                   Throws \<Rightarrow> showError (js ''Error'') st
                 | Returns NotNumber \<Rightarrow> showError (js ''Error'') st
                 | Returns (Number result) \<Rightarrow>
                     if result = PInf \<or> result = NInf \<or> result = NaN
                     then showError (js ''Math error'') st
                     else updateDisplay (st\<lparr>expr := formatResult_basic result\<rparr>)))"

section \<open>Facts about the trailing-token match\<close>

lemma js_simps:
  "js [] = []"
  "js (c # cs) = of_char c # js cs"
  by (simp_all add: js_def)

lemma js_eq_iff [simp]: "js a = js b \<longleftrightarrow> a = b"
  by (simp add: js_def inj_map_eq_map [OF inj_of_char])

lemma js_Nil_iff [simp]: "js a = [] \<longleftrightarrow> a = []" "[] = js a \<longleftrightarrow> a = []"
  by (auto simp: js_def)

lemma matchesToken_Nil [simp]: "matchesToken []"
  by (simp add: matchesToken_def tokenRest_def dropMinus_def dropDot_def)

lemma dropWhile_Nil_iff: "dropWhile P xs = [] \<longleftrightarrow> (\<forall>x \<in> set xs. P x)"
  by (induction xs) auto

text \<open>A string matched by the token group has digits and at most one point after an optional minus.\<close>

lemma matchesToken_chars:
  assumes "matchesToken s"
  shows "\<forall>c \<in> set (dropMinus s). isDigit c \<or> c = 46"
proof -
  define t where "t = dropMinus s"
  define u where "u = dropWhile isDigit t"
  from assms have r: "dropWhile isDigit (dropDot u) = []"
    by (simp add: matchesToken_def tokenRest_def t_def u_def)
  then have d: "\<forall>c \<in> set (dropDot u). isDigit c"
    by (simp add: dropWhile_Nil_iff)
  have "\<forall>c \<in> set u. isDigit c \<or> c = 46"
    using d by (cases u) (auto simp: dropDot_def split: if_splits)
  moreover have "set t \<subseteq> set (takeWhile isDigit t) \<union> set u"
    unfolding u_def by (metis set_append takeWhile_dropWhile_id subset_refl)
  moreover have "\<forall>c \<in> set (takeWhile isDigit t). isDigit c"
    by (auto dest: set_takeWhileD)
  ultimately show ?thesis
    unfolding t_def by blast
qed

lemma matchesToken_no_terminator:
  assumes "matchesToken s" and "c \<in> set s"
  shows "\<not> isLineTerminator c"
proof -
  have "c \<in> set (dropMinus s) \<or> c = 45"
    using assms(2) by (cases s) (auto simp: dropMinus_def split: if_splits)
  with matchesToken_chars [OF assms(1)] show ?thesis
    by (auto simp: isLineTerminator_def isDigit_def)
qed

lemma matchesToken_minus_inside:
  assumes "x \<noteq> []"
  shows "\<not> matchesToken (x @ 45 # ds)"
proof
  assume m: "matchesToken (x @ 45 # ds)"
  have "45 \<in> set (dropMinus (x @ 45 # ds))"
    using assms by (cases x) (auto simp: dropMinus_def)
  with matchesToken_chars [OF m] show False
    by (auto simp: isDigit_def)
qed

lemma matchesToken_minus_digits:
  assumes "\<forall>c \<in> set ds. isDigit c"
  shows "matchesToken (45 # ds)"
  using assms
  by (simp add: matchesToken_def tokenRest_def dropMinus_def dropDot_def dropWhile_Nil_iff [THEN iffD2])

lemma lazyPrefix_minus_digits:
  assumes "\<forall>c \<in> set ds. isDigit c" and "\<forall>c \<in> set p. \<not> isLineTerminator c"
  shows "lazyPrefix (p @ 45 # ds) = Some (p, 45 # ds)"
  using assms(2)
proof (induction p)
  case Nil
  show ?case
    using matchesToken_minus_digits [OF assms(1)] by simp
next
  case (Cons c p)
  have "\<not> matchesToken ((c # p) @ 45 # ds)"
    by (rule matchesToken_minus_inside) simp
  with Cons show ?case
    by simp
qed

text \<open>A start position before a line terminator cannot succeed: the match restarts behind it.\<close>

lemma lazyPrefix_terminator:
  assumes "\<exists>t \<in> set s. isLineTerminator t"
  shows "lazyPrefix s = None"
  using assms
proof (induction s)
  case Nil
  then show ?case by simp
next
  case (Cons c cs)
  have nm: "\<not> matchesToken (c # cs)"
    using Cons.prems matchesToken_no_terminator by blast
  show ?case
  proof (cases "isLineTerminator c")
    case True
    with nm show ?thesis by simp
  next
    case False
    with Cons.prems have "\<exists>t \<in> set cs. isLineTerminator t" by auto
    with Cons.IH nm False show ?thesis by simp
  qed
qed

lemma reMatch_afterLastTerminator: "reMatch s = reMatch (afterLastTerminator s)"
proof (induction s)
  case Nil
  show ?case by simp
next
  case (Cons c cs)
  show ?case
  proof (cases "\<exists>t \<in> set (c # cs). isLineTerminator t")
    case True
    then have "lazyPrefix (c # cs) = None"
      by (rule lazyPrefix_terminator)
    with True Cons show ?thesis by simp
  next
    case False
    then show ?thesis by simp
  qed
qed

lemma afterLastTerminator_id:
  "\<forall>c \<in> set s. \<not> isLineTerminator c \<Longrightarrow> afterLastTerminator s = s"
  by (cases s) auto

lemma afterLastTerminator_free: "\<forall>c \<in> set (afterLastTerminator s). \<not> isLineTerminator c"
  by (induction s) auto

lemma afterLastTerminator_append:
  assumes "\<forall>c \<in> set t. \<not> isLineTerminator c"
  shows "afterLastTerminator (s @ t) = afterLastTerminator s @ t"
  using assms by (induction s) (auto simp: afterLastTerminator_id)

text \<open>The lazy group finds a split of a string without line terminators, and splits it in two.\<close>

lemma lazyPrefix_split:
  assumes "\<forall>c \<in> set s. \<not> isLineTerminator c"
  shows "\<exists>p l. lazyPrefix s = Some (p, l) \<and> s = p @ l \<and> matchesToken l"
  using assms
proof (induction s)
  case Nil
  show ?case by simp
next
  case (Cons c cs)
  then obtain p l where "lazyPrefix cs = Some (p, l)" "cs = p @ l" "matchesToken l"
    by auto
  with Cons.prems show ?case
    by (cases "matchesToken (c # cs)") auto
qed

lemma reMatch_lazyPrefix:
  assumes "\<forall>c \<in> set s. \<not> isLineTerminator c"
  shows "reMatch s = lazyPrefix s"
  using lazyPrefix_split [OF assms] by (cases s) auto

text \<open>The match never fails: \<^verbatim>\<open>if (!m) return;\<close> is never taken.\<close>

lemma reMatch_total:
  "\<exists>p l. reMatch s = Some (p, l) \<and> afterLastTerminator s = p @ l \<and> matchesToken l"
proof -
  have "reMatch s = lazyPrefix (afterLastTerminator s)"
    using reMatch_afterLastTerminator [of s]
      reMatch_lazyPrefix [OF afterLastTerminator_free [of s]] by simp
  with lazyPrefix_split [OF afterLastTerminator_free [of s]] show ?thesis
    by auto
qed

lemma reMatch_minus_digits:
  assumes "\<forall>c \<in> set ds. isDigit c"
  shows "reMatch (p @ 45 # ds) = Some (afterLastTerminator p, 45 # ds)"
proof -
  have d: "\<forall>c \<in> set (45 # ds). \<not> isLineTerminator c"
    using assms by (auto simp: isLineTerminator_def isDigit_def)
  have a: "afterLastTerminator (p @ 45 # ds) = afterLastTerminator p @ 45 # ds"
    by (rule afterLastTerminator_append [OF d])
  have f: "\<forall>c \<in> set (afterLastTerminator p @ 45 # ds). \<not> isLineTerminator c"
    using afterLastTerminator_free [of p] d by auto
  have "reMatch (p @ 45 # ds) = lazyPrefix (afterLastTerminator p @ 45 # ds)"
    using reMatch_afterLastTerminator [of "p @ 45 # ds"] reMatch_lazyPrefix [OF f] a by simp
  also have "\<dots> = Some (afterLastTerminator p, 45 # ds)"
    by (rule lazyPrefix_minus_digits [OF assms afterLastTerminator_free])
  finally show ?thesis .
qed

section \<open>Appending a value\<close>

lemma mapSymbol_other:
  "c \<noteq> 215 \<Longrightarrow> c \<noteq> 247 \<Longrightarrow> c \<noteq> 8722 \<Longrightarrow> c \<noteq> 8211 \<Longrightarrow> mapSymbol c = [c]"
  by (simp add: mapSymbol_def symbolMap_def)

lemma mapSymbol_not_digit: "\<not> isDigit c \<Longrightarrow> \<not> isSingleDigit (mapSymbol c)"
  by (simp add: mapSymbol_def symbolMap_def isSingleDigit_def isDigit_def js_simps)

lemma appendValue_char:
  "appendValue [c] st =
     Some (updateDisplay
       (if expr st = js ''0'' \<and> isSingleDigit (mapSymbol c) then st\<lparr>expr := mapSymbol c\<rparr>
        else st\<lparr>expr := expr st @ mapSymbol c\<rparr>))"
  by (simp add: appendValue_def objectPrototypeKeys_def mapSymbol_def Let_def js_simps)

text \<open>
  Claim C2. For a single digit \<open>d\<close>, appending \<open>d\<close> to the empty expression gives the
  expression \<open>d\<close>, and appending it to the expression \<open>0\<close> replaces the \<open>0\<close> by
  \<open>d\<close>. In every other case (the expression is not exactly \<open>0\<close>, or the character is
  not a digit) a one-character value \<open>c\<close> is concatenated to the end, after the symbol map
  has been applied to it; the symbol map changes only its four keys.
\<close>

theorem appendValue_digit_or_symbol:
  "(isDigit d \<longrightarrow>
      appendValue [d] (st\<lparr>expr := []\<rparr>) = Some (updateDisplay (st\<lparr>expr := [d]\<rparr>)) \<and>
      appendValue [d] (st\<lparr>expr := js ''0''\<rparr>) = Some (updateDisplay (st\<lparr>expr := [d]\<rparr>))) \<and>
   (expr st \<noteq> js ''0'' \<or> \<not> isDigit c \<longrightarrow>
      appendValue [c] st = Some (updateDisplay (st\<lparr>expr := expr st @ mapSymbol c\<rparr>))) \<and>
   (c \<notin> {215, 247, 8722, 8211} \<longrightarrow> mapSymbol c = [c])"
proof (intro conjI impI)
  assume d: "isDigit d"
  then have m: "mapSymbol d = [d]"
    by (intro mapSymbol_other) (auto simp: isDigit_def)
  show "appendValue [d] (st\<lparr>expr := []\<rparr>) = Some (updateDisplay (st\<lparr>expr := [d]\<rparr>))"
    by (simp add: appendValue_char m)
  show "appendValue [d] (st\<lparr>expr := js ''0''\<rparr>) = Some (updateDisplay (st\<lparr>expr := [d]\<rparr>))"
    using d by (simp add: appendValue_char m isSingleDigit_def)
next
  assume "expr st \<noteq> js ''0'' \<or> \<not> isDigit c"
  then show "appendValue [c] st = Some (updateDisplay (st\<lparr>expr := expr st @ mapSymbol c\<rparr>))"
    using mapSymbol_not_digit [of c] by (auto simp: appendValue_char)
next
  assume "c \<notin> {215, 247, 8722, 8211}"
  then show "mapSymbol c = [c]"
    by (simp add: mapSymbol_other)
qed

theorem appendValue_digit_or_symbol_witness:
  "isDigit 55 \<and>
   appendValue (js ''7'') (initialState (js ''deg'')) =
     Some ((initialState (js ''deg''))\<lparr>expr := js ''7'', display := js ''7''\<rparr>) \<and>
   appendValue (js ''7'') ((initialState (js ''deg''))\<lparr>expr := js ''0''\<rparr>) =
     Some ((initialState (js ''deg''))\<lparr>expr := js ''7'', display := js ''7''\<rparr>) \<and>
   appendValue [215] ((initialState (js ''deg''))\<lparr>expr := js ''12''\<rparr>) =
     Some ((initialState (js ''deg''))\<lparr>expr := js ''12*'', display := js ''12*''\<rparr>) \<and>
   appendValue (js ''+'') ((initialState (js ''deg''))\<lparr>expr := js ''12''\<rparr>) =
     Some ((initialState (js ''deg''))\<lparr>expr := js ''12+'', display := js ''12+''\<rparr>)"
  using appendValue_digit_or_symbol [of 55 "initialState (js ''deg'')" 215]
    appendValue_digit_or_symbol [of 55 "(initialState (js ''deg''))\<lparr>expr := js ''12''\<rparr>" 215]
    appendValue_digit_or_symbol [of 55 "(initialState (js ''deg''))\<lparr>expr := js ''12''\<rparr>" 43]
  by (simp add: isDigit_def initialState_def updateDisplay_def mapSymbol_def symbolMap_def js_simps)

section \<open>Evaluating the number functions on numerals\<close>

lemma floor_rat_numeral: "\<lfloor>numeral a / numeral b :: rat\<rfloor> = numeral a div numeral b"
  by (metis floor_divide_of_int_eq of_int_numeral)

lemma ceiling_rat_numeral: "\<lceil>numeral a / numeral b :: rat\<rceil> = - (- numeral a div numeral b)"
  by (metis ceiling_def divide_minus_left floor_divide_of_int_eq of_int_neg_numeral of_int_numeral)

lemma bitlen_numeral: "bitlen (numeral k) = bitlen (numeral k div 2) + 1"
  by (subst compute_bitlen) simp

lemma bitlen_one: "bitlen 1 = 1"
  by (subst compute_bitlen) simp

lemma floorlog_numeral: "floorlog 10 (numeral k) = floorlog 10 (numeral k div 10) + 1"
  by (subst compute_floorlog) simp

lemma floorlog_one: "floorlog 10 (Suc 0) = 1" "floorlog 10 1 = 1"
  by (subst compute_floorlog, simp)+

lemma floorlog_zero: "floorlog 10 0 = 0"
  by (simp add: floorlog_def)

lemma digitsOf_numeral:
  "digitsOf (numeral k) =
     (if (numeral k :: nat) < 10 then [48 + numeral k]
      else digitsOf (numeral k div 10) @ [48 + numeral k mod 10])"
  "digitsOf 0 = [48]"
  "digitsOf 1 = [49]"
  "digitsOf (Suc 0) = [49]"
  by (subst digitsOf.simps, simp)+

lemma shortest_numeral:
  "shortest q n k (numeral f) =
     (case candidate q n k of
        Some s \<Rightarrow> (if s = 10 ^ k then (n + 1, k, 10 ^ (k - 1)) else (n, k, nat s))
      | None \<Rightarrow> shortest q n (k + 1) (pred_numeral f))"
  by (simp add: numeral_eq_Suc)

lemma replicate_numeral: "replicate (numeral k) x = x # replicate (pred_numeral k) x"
  by (simp add: numeral_eq_Suc)

lemmas num_eval = floor_rat_numeral ceiling_rat_numeral bitlen_numeral bitlen_one
  ilog2_def roundTiesToEven_def ulp_def roundDouble_def Let_def

lemmas str_eval = shortest_numeral digitsOf_numeral floorlog_numeral floorlog_one floorlog_zero
  decimalExponent_def candidate_def positiveToString_def numToString_def replicate_numeral js_simps

lemmas parse_eval = js_simps isWhiteSpace_def digitsValue_def exponentPart_def strDecimalLiteral_def
  parseFloat_def isDigit_def
  toFixed_def isInteger_def formatResultWith_def formatResult_def formatResult_basic_def

section \<open>Rounding is exact on the integers below \<open>2^53\<close>\<close>

lemma roundTiesToEven_of_int [simp]: "roundTiesToEven (of_int n) = n"
  by (simp add: roundTiesToEven_def)

lemma roundDouble_of_int_pos:
  assumes "0 < z" and "z < 2 ^ 53"
  shows "roundDouble (of_int z) = Fin (of_int z)"
proof -
  have b1: "1 \<le> bitlen z"
    using assms(1) bitlen_eq_zero_iff [of z] bitlen_nonneg [of z] by linarith
  have b2: "bitlen z \<le> 53"
    using assms(2) by (simp add: bitlen_le_iff_power)
  define k where "k = nat (53 - bitlen z)"
  have e: "max (ilog2 (of_int z)) (- 1022) - 52 = - int k"
    using b1 b2 assms(1) by (simp add: ilog2_def k_def)
  have u: "ulp (of_int z) = 1 / 2 ^ k"
    unfolding ulp_def e by (simp add: power_int_minus_divide)
  have d: "(of_int z :: rat) / ulp (of_int z) = of_int (z * 2 ^ k)"
    by (simp add: u)
  have v: "of_int (roundTiesToEven (of_int z / ulp (of_int z))) * ulp (of_int z) = (of_int z :: rat)"
    unfolding d roundTiesToEven_of_int by (simp add: u)
  have "(of_int z :: rat) < 2 ^ 53"
    using assms(2) by (metis of_int_less_numeral_power_cancel_iff)
  also have "\<dots> \<le> 2 ^ 1024"
    by (rule power_increasing) simp_all
  finally have lt: "\<not> 2 ^ 1024 \<le> (of_int z :: rat)"
    by simp
  have a: "\<bar>of_int z :: rat\<bar> = of_int z"
    using assms(1) by simp
  show ?thesis
    unfolding roundDouble_def a Let_def v using assms(1) lt by simp
qed

lemma roundDouble_of_nat:
  assumes "n < 2 ^ 53"
  shows "roundDouble (of_nat n) = Fin (of_nat n)"
proof (cases "n = 0")
  case True
  then show ?thesis by (simp add: roundDouble_def)
next
  case False
  have "int n < 2 ^ 53"
    using assms by (metis of_nat_less_numeral_power_cancel_iff)
  with False roundDouble_of_int_pos [of "int n"] show ?thesis
    by simp
qed

lemma roundDouble_not_NaN: "roundDouble q \<noteq> NaN"
  by (simp add: roundDouble_def Let_def)

lemma fmul_nat:
  "a * b < 2 ^ 53 \<Longrightarrow> fmul (Fin (of_nat a)) (Fin (of_nat b)) = Fin (of_nat (a * b))"
  using roundDouble_of_nat [of "a * b"] by simp

lemma fadd_nat:
  "a + b < 2 ^ 53 \<Longrightarrow> fadd (Fin (of_nat a)) (Fin (of_nat b)) = Fin (of_nat (a + b))"
  using roundDouble_of_nat [of "a + b"] by simp


section \<open>The factorial loop\<close>

lemma factorialLoop_nat:
  assumes "n + 1 < 2 ^ 53"
  shows "i \<le> n + 1 \<Longrightarrow>
    factorialLoop (Fin (of_nat n)) (Fin (of_nat i)) r =
      Some (foldl fmul r (map (\<lambda>j. Fin (of_nat j)) [i..<Suc n]))"
proof (induction "Suc n - i" arbitrary: i r)
  case 0
  then have "i = Suc n" by simp
  then show ?case
    by (subst factorialLoop.simps) simp
next
  case (Suc d)
  then have le: "i \<le> n" and d: "d = Suc n - Suc i"
    by simp_all
  have "i + 1 < 2 ^ 53"
    using le assms by simp
  then have inc: "fadd (Fin (of_nat i)) (Fin 1) = Fin (of_nat (Suc i))"
    using fadd_nat [of i 1] by simp
  have "factorialLoop (Fin (of_nat n)) (Fin (of_nat i)) r =
          factorialLoop (Fin (of_nat n)) (fadd (Fin (of_nat i)) (Fin 1)) (fmul r (Fin (of_nat i)))"
    using le by (subst factorialLoop.simps) simp
  also have "\<dots> =
          factorialLoop (Fin (of_nat n)) (Fin (of_nat (Suc i))) (fmul r (Fin (of_nat i)))"
    unfolding inc ..
  also have "\<dots> = Some (foldl fmul (fmul r (Fin (of_nat i))) (map (\<lambda>j. Fin (of_nat j)) [Suc i..<Suc n]))"
  proof -
    have "Suc i \<le> n + 1" using le by simp
    from Suc.hyps(1) [OF d this] show ?thesis .
  qed
  also have "\<dots> = Some (foldl fmul r (map (\<lambda>j. Fin (of_nat j)) [i..<Suc n]))"
  proof -
    have "[i..<Suc n] = i # [Suc i..<Suc n]"
      by (rule upt_conv_Cons) (use le in simp)
    then show ?thesis by simp
  qed
  finally show ?case .
qed

lemma foldl_fmul_exact:
  assumes "a * prod_list [i..<m] < 2 ^ 53" and "0 < i"
  shows "foldl fmul (Fin (of_nat a)) (map (\<lambda>j. Fin (of_nat j)) [i..<m]) =
           Fin (of_nat (a * prod_list [i..<m]))"
  using assms
proof (induction "m - i" arbitrary: i a)
  case 0
  then show ?case by simp
next
  case (Suc d)
  then have lt: "i < m" and d: "d = m - Suc i"
    by simp_all
  have u: "[i..<m] = i # [Suc i..<m]"
    using lt by (rule upt_conv_Cons)
  have p: "a * prod_list [i..<m] = (a * i) * prod_list [Suc i..<m]"
    by (simp add: u)
  have "prod_list [Suc i..<m] \<noteq> 0"
    by (simp add: prod_list_zero_iff)
  then have pos: "0 < prod_list [Suc i..<m]"
    by simp
  have "a * i \<le> (a * i) * prod_list [Suc i..<m]"
    using pos by simp
  moreover have "(a * i) * prod_list [Suc i..<m] < 2 ^ 53"
    using Suc.prems(1) unfolding p .
  ultimately have ai: "a * i < 2 ^ 53"
    by (rule le_less_trans)
  have "foldl fmul (Fin (of_nat a)) (map (\<lambda>j. Fin (of_nat j)) [i..<m]) =
          foldl fmul (Fin (of_nat (a * i))) (map (\<lambda>j. Fin (of_nat j)) [Suc i..<m])"
    by (simp add: u fmul_nat [OF ai] del: fmul.simps)
  also have "\<dots> = Fin (of_nat ((a * i) * prod_list [Suc i..<m]))"
  proof (rule Suc.hyps(1) [OF d])
    show "(a * i) * prod_list [Suc i..<m] < 2 ^ 53"
      using Suc.prems(1) unfolding p .
    show "0 < Suc i" by simp
  qed
  finally show ?case
    by (simp add: p)
qed

lemma prod_list_upt_fact: "prod_list [2..<Suc n] = fact n"
proof (induction n)
  case 0
  show ?case by simp
next
  case (Suc n)
  show ?case
  proof (cases "n = 0")
    case True
    then show ?thesis by simp
  next
    case False
    then have "[2..<Suc (Suc n)] = [2..<Suc n] @ [Suc n]"
      by simp
    with Suc show ?thesis
      by simp
  qed
qed

lemma fact_gt_self: "3 \<le> n \<Longrightarrow> n < fact n"
proof (induction n)
  case 0
  then show ?case by simp
next
  case (Suc n)
  show ?case
  proof (cases "n = 2")
    case True
    then show ?thesis by (simp add: fact_numeral numeral_3_eq_3 [symmetric])
  next
    case False
    with Suc.prems have "3 \<le> n" by simp
    then have "n < fact n" by (rule Suc.IH)
    then have "2 \<le> (fact n :: nat)" using \<open>3 \<le> n\<close> by simp
    then have "Suc n * 2 \<le> Suc n * fact n" by (rule mult_le_mono2)
    moreover have "Suc n < Suc n * 2" by simp
    ultimately show ?thesis by simp
  qed
qed

lemma factorial_nat:
  assumes "n + 1 < 2 ^ 53"
  shows "factorial (Fin (of_nat n)) = Some (foldl fmul (Fin 1) (map (\<lambda>j. Fin (of_nat j)) [2..<Suc n]))"
proof (cases "n = 0")
  case True
  then show ?thesis
    unfolding factorial_def by (subst factorialLoop.simps) simp
next
  case False
  then have "2 \<le> n + 1" by simp
  from factorialLoop_nat [OF assms this, of "Fin 1"] show ?thesis
    by (simp add: factorial_def)
qed

lemma factorial_exact:
  assumes "(fact n :: nat) < 2 ^ 53"
  shows "factorial (Fin (of_nat n)) = Some (Fin (of_nat (fact n)))"
proof -
  have n: "n + 1 < 2 ^ 53"
  proof (cases "3 \<le> n")
    case True
    from fact_gt_self [OF this] assms show ?thesis by simp
  next
    case False
    then have "n + 1 \<le> 3" by simp
    also have "(3::nat) < 2 ^ 53" by simp
    finally show ?thesis .
  qed
  have "1 * prod_list [2..<Suc n] < (2::nat) ^ 53"
    unfolding prod_list_upt_fact using assms by simp
  then have "foldl fmul (Fin (of_nat 1)) (map (\<lambda>j. Fin (of_nat j)) [2..<Suc n]) =
          Fin (of_nat (1 * prod_list [2..<Suc n]))"
    by (rule foldl_fmul_exact) simp
  then have "foldl fmul (Fin 1) (map (\<lambda>j. Fin (of_nat j)) [2..<Suc n]) = Fin (of_nat (fact n))"
    unfolding prod_list_upt_fact by simp
  then show ?thesis
    unfolding factorial_nat [OF n] by simp
qed

section \<open>Toggling the sign\<close>

lemmas match_eval = js_simps matchesToken_def tokenRest_def dropMinus_def dropDot_def isDigit_def
  isLineTerminator_def

lemma matchesToken_signed:
  assumes "matchesToken l" and "l \<noteq> []" and "hd l \<noteq> 45"
  shows "matchesToken (45 # l)"
proof -
  have "dropMinus l = l"
    using assms(2,3) by (cases l) (simp_all add: dropMinus_def)
  moreover have "dropMinus (45 # l) = l"
    by (simp add: dropMinus_def)
  ultimately show ?thesis
    using assms(1) by (simp add: matchesToken_def tokenRest_def)
qed

lemma lazyPrefix_minus:
  assumes "matchesToken (45 # l)" and "\<forall>c \<in> set p. \<not> isLineTerminator c"
  shows "lazyPrefix (p @ 45 # l) = Some (p, 45 # l)"
  using assms(2)
proof (induction p)
  case Nil
  show ?case
    using assms(1) by simp
next
  case (Cons c p)
  have "\<not> matchesToken ((c # p) @ 45 # l)"
    by (rule matchesToken_minus_inside) simp
  with Cons show ?case
    by simp
qed

lemma reMatch_split:
  assumes "\<forall>c \<in> set s. \<not> isLineTerminator c" and "reMatch s = Some (p, l)"
  shows "s = p @ l" and "matchesToken l"
  using reMatch_total [of s] assms by (simp_all add: afterLastTerminator_id)

text \<open>
  Negating twice gives the expression back when the trailing number has no sign: the first
  call puts a minus in front of it, and the second call finds that minus again.
\<close>

lemma negateLastNumber_twice_unsigned:
  assumes nt: "\<forall>c \<in> set (expr st). \<not> isLineTerminator c"
    and m: "reMatch (expr st) = Some (prefix, tok)"
    and tok: "tok \<noteq> []" "hd tok \<noteq> 45"
  shows "expr (negateLastNumber (negateLastNumber st)) = expr st"
proof -
  have s: "expr st = prefix @ tok" and mt: "matchesToken tok"
    using reMatch_split [OF nt m] by simp_all
  have e1: "expr (negateLastNumber st) = prefix @ 45 # tok"
    using m tok by (simp add: negateLastNumber_def updateDisplay_def js_simps)
  have np: "\<forall>c \<in> set prefix. \<not> isLineTerminator c"
    using nt s by simp
  have nt': "\<forall>c \<in> set (prefix @ 45 # tok). \<not> isLineTerminator c"
    using nt s by (simp add: isLineTerminator_def)
  have "reMatch (prefix @ 45 # tok) = Some (prefix, 45 # tok)"
    using lazyPrefix_minus [OF matchesToken_signed [OF mt tok] np] reMatch_lazyPrefix [OF nt']
    by simp
  then show ?thesis
    using s by (simp add: negateLastNumber_def [of "negateLastNumber st"] e1 updateDisplay_def)
qed

text \<open>
  Claim C1. Negating twice does not give \<open>5-3\<close> back: the first call takes the binary
  minus for the sign of \<open>3\<close> and removes it, which leaves \<open>53\<close>, and the second call
  negates that number.
\<close>

theorem negateLastNumber_twice_binary_minus:
  "negateLastNumber ((initialState (js ''deg''))\<lparr>expr := js ''5-3''\<rparr>) =
     (initialState (js ''deg''))\<lparr>expr := js ''53'', display := js ''53''\<rparr> \<and>
   negateLastNumber (negateLastNumber ((initialState (js ''deg''))\<lparr>expr := js ''5-3''\<rparr>)) =
     (initialState (js ''deg''))\<lparr>expr := js ''-53'', display := js ''-53''\<rparr>"
  by (simp add: negateLastNumber_def updateDisplay_def initialState_def match_eval)

section \<open>Scientific functions that insert, and calls without a number\<close>

text \<open>
  Claim C8. The \<open>pow\<close> function appends the caret to the expression whatever the
  expression is, and does nothing else: no error is shown and no timer is started.
\<close>

theorem applySciFunction_pow:
  "applySciFunction h (js ''pow'') st = Some (updateDisplay (st\<lparr>expr := expr st @ js ''^''\<rparr>)) \<and>
   errorClass (updateDisplay (st\<lparr>expr := expr st @ js ''^''\<rparr>)) = errorClass st \<and>
   timers (updateDisplay (st\<lparr>expr := expr st @ js ''^''\<rparr>)) = timers st"
  by (simp add: applySciFunction_def updateDisplay_def Let_def)

text \<open>
  Claim C7. For each of the fifteen evaluating function names, when the trailing token is
  empty or does not parse as a number, the call returns the state as it was: the expression,
  the display and the error state are unchanged.
\<close>

theorem applySciFunction_no_number:
  assumes "fn \<in> set evaluatingFunctions"
    and "reMatch (expr st) = Some (prefix, tok)"
    and "tok = [] \<or> parseFloat tok = NaN"
  shows "applySciFunction h fn st = Some st"
proof -
  have "fn \<noteq> js ''pow''" "fn \<noteq> js ''pi''" "fn \<noteq> js ''e''" "fn \<noteq> js ''percent''"
    "fn \<noteq> js ''negate''"
    using assms(1) by (auto simp: evaluatingFunctions_def)
  then show ?thesis
    using assms(2,3) by (auto simp: applySciFunction_def Let_def)
qed

theorem applySciFunction_no_number_witness:
  "js ''sqrt'' \<in> set evaluatingFunctions \<and>
   reMatch (js ''2+'') = Some (js ''2+'', []) \<and>
   applySciFunction (constHost Throws) (js ''sqrt'') ((initialState (js ''deg''))\<lparr>expr := js ''2+''\<rparr>) =
     Some ((initialState (js ''deg''))\<lparr>expr := js ''2+''\<rparr>) \<and>
   js ''factorial'' \<in> set evaluatingFunctions \<and>
   reMatch (js ''2*-'') = Some (js ''2*'', js ''-'') \<and> parseFloat (js ''-'') = NaN \<and>
   applySciFunction (constHost Throws) (js ''factorial'') ((initialState (js ''deg''))\<lparr>expr := js ''2*-''\<rparr>) =
     Some ((initialState (js ''deg''))\<lparr>expr := js ''2*-''\<rparr>)"
proof -
  have f1: "js ''sqrt'' \<in> set evaluatingFunctions" and f2: "js ''factorial'' \<in> set evaluatingFunctions"
    by (simp_all add: evaluatingFunctions_def)
  have m1: "reMatch (expr ((initialState (js ''deg''))\<lparr>expr := js ''2+''\<rparr>)) = Some (js ''2+'', [])"
    by (simp add: match_eval)
  have m2: "reMatch (expr ((initialState (js ''deg''))\<lparr>expr := js ''2*-''\<rparr>)) = Some (js ''2*'', js ''-'')"
    by (simp add: match_eval)
  have p: "parseFloat (js ''-'') = NaN"
    by (simp add: parse_eval)
  show ?thesis
    using applySciFunction_no_number [OF f1 m1, of "constHost Throws"]
      applySciFunction_no_number [OF f2 m2, of "constHost Throws"] f1 f2 m1 m2 p
    by simp
qed

section \<open>The trailing number as a Number\<close>

lemma parseFloat_minus_digits:
  assumes "\<forall>c \<in> set ds. isDigit c" and "ds \<noteq> []"
  shows "parseFloat (45 # ds) = roundDouble (- of_nat (digitsValue ds))"
proof -
  obtain d ds' where ds: "ds = d # ds'"
    using assms(2) by (cases ds) auto
  have "isDigit d"
    using assms(1) ds by simp
  then have ninf: "take 8 ds \<noteq> js ''Infinity''"
    by (simp add: ds isDigit_def js_simps)
  have tw: "takeWhile isDigit ds = ds" and dw: "dropWhile isDigit ds = []"
    using assms(1) by (simp_all add: takeWhile_eq_all_conv)
  have ws: "dropWhile isWhiteSpace (45 # ds) = 45 # ds"
    by (simp add: isWhiteSpace_def)
  have "strDecimalLiteral ds = Some (of_nat (digitsValue ds))"
    using assms(2) by (simp add: strDecimalLiteral_def tw dw exponentPart_def)
  then show ?thesis
    unfolding parseFloat_def ws Let_def using ninf by simp
qed

text \<open>
  Claim C10. In an expression that ends in a minus followed by digits, the trailing token is
  the minus with the digits, whatever stands before the minus, and the prefix is what stands
  before it (from the last line terminator on, if there is one). So negation removes that
  minus and joins the digits to the prefix, and percent replaces the minus and the digits by
  the hundredth of the negative number.
\<close>

theorem trailing_minus_is_sign:
  assumes "\<forall>c \<in> set ds. isDigit c"
  shows "reMatch (p @ 45 # ds) = Some (afterLastTerminator p, 45 # ds) \<and>
    ((\<forall>c \<in> set p. \<not> isLineTerminator c) \<longrightarrow> afterLastTerminator p = p) \<and>
    negateLastNumber (st\<lparr>expr := p @ 45 # ds\<rparr>) =
      updateDisplay (st\<lparr>expr := afterLastTerminator p @ ds\<rparr>) \<and>
    (ds \<noteq> [] \<longrightarrow>
      parseFloat (45 # ds) \<noteq> NaN \<and>
      percentLastNumber (st\<lparr>expr := p @ 45 # ds\<rparr>) =
        updateDisplay (st\<lparr>expr :=
          afterLastTerminator p @ numToString (fdiv (parseFloat (45 # ds)) (Fin 100))\<rparr>))"
proof (intro conjI impI)
  show m: "reMatch (p @ 45 # ds) = Some (afterLastTerminator p, 45 # ds)"
    by (rule reMatch_minus_digits [OF assms])
  show "afterLastTerminator p = p" if "\<forall>c \<in> set p. \<not> isLineTerminator c"
    using that by (rule afterLastTerminator_id)
  show "negateLastNumber (st\<lparr>expr := p @ 45 # ds\<rparr>) =
      updateDisplay (st\<lparr>expr := afterLastTerminator p @ ds\<rparr>)"
    by (simp add: negateLastNumber_def m js_simps)
  show n: "parseFloat (45 # ds) \<noteq> NaN" if "ds \<noteq> []"
    using parseFloat_minus_digits [OF assms that] by (simp add: roundDouble_not_NaN)
  show "percentLastNumber (st\<lparr>expr := p @ 45 # ds\<rparr>) =
        updateDisplay (st\<lparr>expr :=
          afterLastTerminator p @ numToString (fdiv (parseFloat (45 # ds)) (Fin 100))\<rparr>)"
    if "ds \<noteq> []"
    using n [OF that] by (simp add: percentLastNumber_def m Let_def)
qed

theorem trailing_minus_is_sign_witness:
  "isDigit 51 \<and> js ''3'' = [51] \<and>
   reMatch (js ''5-3'') = Some (js ''5'', js ''-3'') \<and>
   negateLastNumber ((initialState (js ''deg''))\<lparr>expr := js ''5-3''\<rparr>) =
     (initialState (js ''deg''))\<lparr>expr := js ''53'', display := js ''53''\<rparr> \<and>
   percentLastNumber ((initialState (js ''deg''))\<lparr>expr := js ''5-3''\<rparr>) =
     (initialState (js ''deg''))\<lparr>expr := js ''5-0.03'', display := js ''5-0.03''\<rparr>"
proof -
  have d: "\<forall>c \<in> set (js ''3''). isDigit c"
    by (simp add: isDigit_def js_simps)
  have f: "numToString (fdiv (parseFloat (js ''-3'')) (Fin 100)) = js ''-0.03''"
    by (simp add: parse_eval num_eval str_eval)
  show ?thesis
    using trailing_minus_is_sign [OF d, of "js ''5''" "initialState (js ''deg'')"] d f
    by (simp add: isLineTerminator_def isDigit_def updateDisplay_def initialState_def js_simps)
qed

text \<open>
  Claim C5. With the trailing token \<open>tok\<close> and the prefix \<open>prefix\<close> that the match gives:
  when \<open>tok\<close> is not empty and parses as a number, \<open>percentLastNumber\<close> puts
  \<open>(num / 100).toString()\<close> in the place of the token and keeps the prefix; when \<open>tok\<close>
  is empty or does not parse, the state is unchanged. The token is the end of the expression
  and the prefix is all that stands before it.
\<close>

theorem percentLastNumber_spec:
  assumes "reMatch (expr st) = Some (prefix, tok)"
  shows "(tok \<noteq> [] \<and> parseFloat tok \<noteq> NaN \<longrightarrow>
      percentLastNumber st =
        updateDisplay (st\<lparr>expr := prefix @ numToString (fdiv (parseFloat tok) (Fin 100))\<rparr>)) \<and>
    (tok = [] \<or> parseFloat tok = NaN \<longrightarrow> percentLastNumber st = st) \<and>
    ((\<forall>c \<in> set (expr st). \<not> isLineTerminator c) \<longrightarrow> expr st = prefix @ tok) \<and>
    matchesToken tok"
proof (intro conjI impI)
  show "percentLastNumber st =
        updateDisplay (st\<lparr>expr := prefix @ numToString (fdiv (parseFloat tok) (Fin 100))\<rparr>)"
    if "tok \<noteq> [] \<and> parseFloat tok \<noteq> NaN"
    using that assms by (simp add: percentLastNumber_def Let_def)
  show "percentLastNumber st = st" if "tok = [] \<or> parseFloat tok = NaN"
    using that assms by (auto simp: percentLastNumber_def Let_def)
  show "expr st = prefix @ tok" if "\<forall>c \<in> set (expr st). \<not> isLineTerminator c"
    using reMatch_split(1) [OF that assms] .
  show "matchesToken tok"
    using reMatch_total [of "expr st"] assms by simp
qed

theorem percentLastNumber_spec_witness:
  "reMatch (js ''2*50'') = Some (js ''2*'', js ''50'') \<and>
   percentLastNumber ((initialState (js ''deg''))\<lparr>expr := js ''2*50''\<rparr>) =
     (initialState (js ''deg''))\<lparr>expr := js ''2*0.5'', display := js ''2*0.5''\<rparr> \<and>
   reMatch (js ''2*'') = Some (js ''2*'', []) \<and>
   percentLastNumber ((initialState (js ''deg''))\<lparr>expr := js ''2*''\<rparr>) =
     (initialState (js ''deg''))\<lparr>expr := js ''2*''\<rparr>"
proof -
  have m1: "reMatch (expr ((initialState (js ''deg''))\<lparr>expr := js ''2*50''\<rparr>)) = Some (js ''2*'', js ''50'')"
    by (simp add: match_eval)
  have m2: "reMatch (expr ((initialState (js ''deg''))\<lparr>expr := js ''2*''\<rparr>)) = Some (js ''2*'', [])"
    by (simp add: match_eval)
  have p: "parseFloat (js ''50'') = Fin 50"
    by (simp add: parse_eval num_eval)
  have f: "numToString (fdiv (Fin 50) (Fin 100)) = js ''0.5''"
    by (simp add: num_eval str_eval)
  show ?thesis
    using percentLastNumber_spec [OF m1] percentLastNumber_spec [OF m2] m1 m2 p f
    by (simp add: updateDisplay_def initialState_def js_simps)
qed

section \<open>Factorial\<close>

lemma factorial_names:
  "js ''factorial'' \<noteq> js ''pow''" "js ''factorial'' \<noteq> js ''pi''" "js ''factorial'' \<noteq> js ''e''"
  "js ''factorial'' \<noteq> js ''percent''" "js ''factorial'' \<noteq> js ''negate''"
  by simp_all

lemma switchFn_factorial:
  "switchFn h st (js ''factorial'') num =
     (if flt num (Fin 0) \<or> \<not> isInteger num then Some (Error (js ''Invalid''))
      else map_option Result (factorial num))"
  by (simp add: switchFn_def)

lemma applySciFunction_factorial_number:
  assumes "reMatch (expr st) = Some (prefix, tok)" and "tok \<noteq> []" and "parseFloat tok \<noteq> NaN"
  shows "applySciFunction h (js ''factorial'') st =
     (case switchFn h st (js ''factorial'') (parseFloat tok) of
        None \<Rightarrow> None
      | Some Default \<Rightarrow> Some st
      | Some (Error msg) \<Rightarrow> Some (showError msg st)
      | Some (Result result) \<Rightarrow>
          if result = PInf \<or> result = NInf \<or> result = NaN
          then Some (showError (js ''Math error'') st)
          else Some (replaceLast prefix (formatResult result) st))"
  using assms unfolding applySciFunction_def Let_def
  by (simp only: factorial_names if_False option.case prod.case)

text \<open>
  Claim C6. With the trailing number \<open>5\<close> the factorial function replaces it by \<open>120\<close>.
  With a trailing number that is negative or not an integer it shows \<open>Invalid\<close> and leaves
  the expression as it is. The function \<open>factorial\<close> gives 1 for 0 and for 1; for a natural
  number \<open>n\<close> below \<open>2^53 - 1\<close> it returns the product of 2, 3, ..., \<open>n\<close> taken in that
  order with the multiplication of Numbers, which is \<open>n!\<close> itself as long as
  \<open>n! < 2^53\<close>.
\<close>

theorem applySciFunction_factorial:
  assumes "reMatch (expr st) = Some (prefix, tok)"
  shows "(tok = js ''5'' \<longrightarrow>
      applySciFunction h (js ''factorial'') st = Some (updateDisplay (st\<lparr>expr := prefix @ js ''120''\<rparr>))) \<and>
    (tok \<noteq> [] \<longrightarrow> parseFloat tok = Fin q \<longrightarrow> q < 0 \<or> of_int \<lfloor>q\<rfloor> \<noteq> q \<longrightarrow>
      applySciFunction h (js ''factorial'') st = Some (showError (js ''Invalid'') st) \<and>
      expr (showError (js ''Invalid'') st) = expr st) \<and>
    factorial (Fin 0) = Some (Fin 1) \<and>
    factorial (Fin 1) = Some (Fin 1) \<and>
    (n + 1 < 2 ^ 53 \<longrightarrow>
      factorial (Fin (of_nat n)) =
        Some (foldl fmul (Fin 1) (map (\<lambda>j. Fin (of_nat j)) [2..<Suc n]))) \<and>
    ((fact n :: nat) < 2 ^ 53 \<longrightarrow> factorial (Fin (of_nat n)) = Some (Fin (of_nat (fact n))))"
proof (intro conjI impI)
  have f5: "factorial (Fin 5) = Some (Fin 120)"
    using factorial_exact [of 5] by (simp add: fact_numeral)
  have p5: "parseFloat (js ''5'') = Fin 5"
    by (simp add: parse_eval num_eval)
  have r: "formatResult (Fin 120) = js ''120''"
    by (simp add: parse_eval num_eval str_eval)
  show "applySciFunction h (js ''factorial'') st = Some (updateDisplay (st\<lparr>expr := prefix @ js ''120''\<rparr>))"
    if "tok = js ''5''"
  proof -
    have "tok \<noteq> []" and "parseFloat tok \<noteq> NaN"
      using that p5 by simp_all
    from applySciFunction_factorial_number [OF assms this] show ?thesis
      unfolding that p5 switchFn_factorial
      by (simp add: isInteger_def f5 r replaceLast_def)
  qed
  show "applySciFunction h (js ''factorial'') st = Some (showError (js ''Invalid'') st)"
    if "tok \<noteq> []" and "parseFloat tok = Fin q" and "q < 0 \<or> of_int \<lfloor>q\<rfloor> \<noteq> q"
  proof -
    have "parseFloat tok \<noteq> NaN"
      using that(2) by simp
    from applySciFunction_factorial_number [OF assms that(1) this] that(2,3) show ?thesis
      by (auto simp: switchFn_factorial isInteger_def)
  qed
  show "expr (showError (js ''Invalid'') st) = expr st"
    by (simp add: showError_def)
  show "factorial (Fin 0) = Some (Fin 1)"
    using factorial_exact [of 0] by simp
  show "factorial (Fin 1) = Some (Fin 1)"
    using factorial_exact [of 1] by simp
  show "factorial (Fin (of_nat n)) = Some (foldl fmul (Fin 1) (map (\<lambda>j. Fin (of_nat j)) [2..<Suc n]))"
    if "n + 1 < 2 ^ 53"
    using that by (rule factorial_nat)
  show "factorial (Fin (of_nat n)) = Some (Fin (of_nat (fact n)))" if "(fact n :: nat) < 2 ^ 53"
    using that by (rule factorial_exact)
qed

theorem applySciFunction_factorial_witness:
  "reMatch (js ''2+5'') = Some (js ''2+'', js ''5'') \<and>
   applySciFunction (constHost Throws) (js ''factorial'') ((initialState (js ''deg''))\<lparr>expr := js ''2+5''\<rparr>) =
     Some ((initialState (js ''deg''))\<lparr>expr := js ''2+120'', display := js ''2+120''\<rparr>) \<and>
   reMatch (js ''-1'') = Some ([], js ''-1'') \<and> parseFloat (js ''-1'') = Fin (- 1) \<and>
   applySciFunction (constHost Throws) (js ''factorial'') ((initialState (js ''deg''))\<lparr>expr := js ''-1''\<rparr>) =
     Some ((initialState (js ''deg''))\<lparr>expr := js ''-1'', display := js ''Invalid'', errorClass := True, timers := 1\<rparr>) \<and>
   reMatch (js ''2.5'') = Some ([], js ''2.5'') \<and> parseFloat (js ''2.5'') = Fin (5 / 2) \<and>
   applySciFunction (constHost Throws) (js ''factorial'') ((initialState (js ''deg''))\<lparr>expr := js ''2.5''\<rparr>) =
     Some ((initialState (js ''deg''))\<lparr>expr := js ''2.5'', display := js ''Invalid'', errorClass := True, timers := 1\<rparr>) \<and>
   (fact 3 :: nat) < 2 ^ 53 \<and>
   factorial (Fin 3) = Some (Fin 6)"
proof -
  let ?st = "\<lambda>e. (initialState (js ''deg''))\<lparr>expr := e\<rparr>"
  have m1: "reMatch (js ''2+5'') = Some (js ''2+'', js ''5'')"
    and m2: "reMatch (js ''-1'') = Some ([], js ''-1'')"
    and m3: "reMatch (js ''2.5'') = Some ([], js ''2.5'')"
    by (simp_all add: match_eval)
  have p2: "parseFloat (js ''-1'') = Fin (- 1)"
    and p3: "parseFloat (js ''2.5'') = Fin (5 / 2)"
    by (simp_all add: parse_eval num_eval)
  have f3: "(fact 3 :: nat) < 2 ^ 53"
    by (simp add: fact_numeral)
  have e1: "reMatch (expr (?st (js ''2+5''))) = Some (js ''2+'', js ''5'')"
    and e2: "reMatch (expr (?st (js ''-1''))) = Some ([], js ''-1'')"
    and e3: "reMatch (expr (?st (js ''2.5''))) = Some ([], js ''2.5'')"
    by (simp_all add: m1 m2 m3)
  have c1: "applySciFunction (constHost Throws) (js ''factorial'') (?st (js ''2+5'')) =
      Some ((initialState (js ''deg''))\<lparr>expr := js ''2+120'', display := js ''2+120''\<rparr>)"
    using applySciFunction_factorial [OF e1, of "constHost Throws" 0 3]
    by (simp add: updateDisplay_def initialState_def js_simps)
  have c2: "applySciFunction (constHost Throws) (js ''factorial'') (?st (js ''-1'')) =
      Some ((initialState (js ''deg''))\<lparr>expr := js ''-1'', display := js ''Invalid'', errorClass := True, timers := 1\<rparr>)"
    using applySciFunction_factorial [OF e2, of "constHost Throws" "- 1" 3] p2
    by (simp add: showError_def initialState_def)
  have c3: "applySciFunction (constHost Throws) (js ''factorial'') (?st (js ''2.5'')) =
      Some ((initialState (js ''deg''))\<lparr>expr := js ''2.5'', display := js ''Invalid'', errorClass := True, timers := 1\<rparr>)"
    using applySciFunction_factorial [OF e3, of "constHost Throws" "5 / 2" 3] p3
    by (simp add: showError_def initialState_def floor_rat_numeral)
  have c4: "factorial (Fin 3) = Some (Fin 6)"
    using applySciFunction_factorial [OF e1, of "constHost Throws" 0 3] f3
    by (simp add: fact_numeral num_eval)
  show ?thesis
    by (intro conjI m1 m2 m3 p2 p3 f3 c1 c2 c3 c4)
qed

section \<open>Facts about the evaluation\<close>

lemmas calc_eval = normalizeExpression_def normalizeExpression_basic_def replaceCaret_def
  mapSymbol_def symbolMap_def allowedRE_def allowedChar_def allowedRE_basic_def
  allowedChar_basic_def stripTrailing_def stripTrailing_basic_def isDigit_def isWhiteSpace_def
  js_simps

lemma calculate_number:
  assumes "expr st \<noteq> []" and "allowedRE (normalizeExpression (expr st))"
    and "evalFunction h (functionBody (stripTrailing (normalizeExpression (expr st)))) =
           Returns (Number r)"
  shows "calculate h st =
     (if r = PInf \<or> r = NInf \<or> r = NaN then showError (js ''Math error'') st
      else updateDisplay (st\<lparr>expr := formatResult r\<rparr>))"
  using assms by (simp add: calculate_def Let_def)

lemma calculate_basic_number:
  assumes "expr st \<noteq> []" and "allowedRE_basic (normalizeExpression_basic (expr st))"
    and "evalFunction h (functionBody (stripTrailing_basic (normalizeExpression_basic (expr st)))) =
           Returns (Number r)"
  shows "calculate_basic h st =
     (if r = PInf \<or> r = NInf \<or> r = NaN then showError (js ''Math error'') st
      else updateDisplay (st\<lparr>expr := formatResult_basic r\<rparr>))"
  using assms by (simp add: calculate_basic_def Let_def)

lemma calculate_throws:
  assumes "expr st \<noteq> []" and "allowedRE (normalizeExpression (expr st))"
    and "evalFunction h (functionBody (stripTrailing (normalizeExpression (expr st)))) = Throws"
  shows "calculate h st = showError (js ''Error'') st"
  using assms by (simp add: calculate_def Let_def)

text \<open>The last character is removed when it is one of \<open>* + - / ^ %\<close>, and only then.\<close>

lemma stripTrailing_operator:
  "s \<noteq> [] \<Longrightarrow> last s \<in> {42, 43, 45, 47, 94, 37} \<Longrightarrow> stripTrailing s = butlast s"
  "s = [] \<or> last s \<notin> {42, 43, 45, 47, 94, 37} \<Longrightarrow> stripTrailing s = s"
  by (auto simp: stripTrailing_def)

text \<open>
  A hanging \<open>+\<close> is removed before the evaluation: when the evaluator gives 3 for the body
  with \<open>3\<close>, the expression \<open>3+\<close> is replaced by \<open>3\<close>.
\<close>

lemma calculate_hanging_plus:
  assumes "evalFunction h (functionBody (js ''3'')) = Returns (Number (Fin 3))"
  shows "calculate h (st\<lparr>expr := js ''3+''\<rparr>) = updateDisplay (st\<lparr>expr := js ''3''\<rparr>)"
proof -
  have n: "normalizeExpression (js ''3+'') = js ''3+''"
    and s: "stripTrailing (js ''3+'') = js ''3''"
    and a: "allowedRE (js ''3+'')"
    by (simp_all add: calc_eval)
  have f: "formatResult (Fin 3) = js ''3''"
    by (simp add: parse_eval num_eval str_eval)
  have "calculate h (st\<lparr>expr := js ''3+''\<rparr>) =
      (if Fin 3 = PInf \<or> Fin 3 = NInf \<or> Fin 3 = NaN
       then showError (js ''Math error'') (st\<lparr>expr := js ''3+''\<rparr>)
       else updateDisplay (st\<lparr>expr := js ''3+'', expr := formatResult (Fin 3)\<rparr>))"
    by (rule calculate_number) (simp_all add: n s a assms)
  then show ?thesis
    by (simp add: f)
qed

text \<open>
  Claim C3. When the evaluator returns \<open>Infinity\<close>, \<open>-Infinity\<close> or \<open>NaN\<close>,
  \<open>calculate\<close> shows \<open>Math error\<close> and does not touch the expression, in the scientific
  script and in the basic one. For \<open>10/0\<close> the body given to the evaluator is
  \<open>"use strict"; return (10/0)\<close>, for which a JavaScript engine returns \<open>Infinity\<close>.
\<close>

theorem calculate_math_error:
  "(expr st \<noteq> [] \<longrightarrow> allowedRE (normalizeExpression (expr st)) \<longrightarrow>
      evalFunction h (functionBody (stripTrailing (normalizeExpression (expr st)))) =
        Returns (Number r) \<longrightarrow>
      r = PInf \<or> r = NInf \<or> r = NaN \<longrightarrow>
      calculate h st = showError (js ''Math error'') st) \<and>
   (expr st \<noteq> [] \<longrightarrow> allowedRE_basic (normalizeExpression_basic (expr st)) \<longrightarrow>
      evalFunction h (functionBody (stripTrailing_basic (normalizeExpression_basic (expr st)))) =
        Returns (Number r) \<longrightarrow>
      r = PInf \<or> r = NInf \<or> r = NaN \<longrightarrow>
      calculate_basic h st = showError (js ''Math error'') st) \<and>
   (evalFunction h (functionBody (js ''10/0'')) = Returns (Number PInf) \<longrightarrow>
      calculate h (st\<lparr>expr := js ''10/0''\<rparr>) =
        showError (js ''Math error'') (st\<lparr>expr := js ''10/0''\<rparr>) \<and>
      calculate_basic h (st\<lparr>expr := js ''10/0''\<rparr>) =
        showError (js ''Math error'') (st\<lparr>expr := js ''10/0''\<rparr>)) \<and>
   expr (showError msg st) = expr st \<and> display (showError msg st) = msg"
proof (intro conjI impI)
  show "calculate h st = showError (js ''Math error'') st"
    if "expr st \<noteq> []" and "allowedRE (normalizeExpression (expr st))"
      and "evalFunction h (functionBody (stripTrailing (normalizeExpression (expr st)))) =
        Returns (Number r)"
      and "r = PInf \<or> r = NInf \<or> r = NaN"
    using calculate_number [OF that(1,2,3)] that(4) by simp
  show "calculate_basic h st = showError (js ''Math error'') st"
    if "expr st \<noteq> []" and "allowedRE_basic (normalizeExpression_basic (expr st))"
      and "evalFunction h (functionBody (stripTrailing_basic (normalizeExpression_basic (expr st)))) =
        Returns (Number r)"
      and "r = PInf \<or> r = NInf \<or> r = NaN"
    using calculate_basic_number [OF that(1,2,3)] that(4) by simp
  have n: "normalizeExpression (js ''10/0'') = js ''10/0''"
    and s: "stripTrailing (js ''10/0'') = js ''10/0''"
    and a: "allowedRE (js ''10/0'')"
    and nb: "normalizeExpression_basic (js ''10/0'') = js ''10/0''"
    and sb: "stripTrailing_basic (js ''10/0'') = js ''10/0''"
    and ab: "allowedRE_basic (js ''10/0'')"
    by (simp_all add: calc_eval)
  assume e: "evalFunction h (functionBody (js ''10/0'')) = Returns (Number PInf)"
  show "calculate h (st\<lparr>expr := js ''10/0''\<rparr>) =
        showError (js ''Math error'') (st\<lparr>expr := js ''10/0''\<rparr>)"
    using calculate_number [of "st\<lparr>expr := js ''10/0''\<rparr>" h PInf] by (simp add: n s a e)
  show "calculate_basic h (st\<lparr>expr := js ''10/0''\<rparr>) =
        showError (js ''Math error'') (st\<lparr>expr := js ''10/0''\<rparr>)"
    using calculate_basic_number [of "st\<lparr>expr := js ''10/0''\<rparr>" h PInf]
    by (simp add: nb sb ab e)
next
  show "expr (showError msg st) = expr st" and "display (showError msg st) = msg"
    by (simp_all add: showError_def)
qed

theorem calculate_math_error_witness:
  "evalFunction (constHost (Returns (Number PInf))) (functionBody (js ''10/0'')) =
     Returns (Number PInf) \<and>
   calculate (constHost (Returns (Number PInf))) ((initialState (js ''deg''))\<lparr>expr := js ''10/0''\<rparr>) =
     (initialState (js ''deg''))\<lparr>expr := js ''10/0'', display := js ''Math error'',
        errorClass := True, timers := 1\<rparr> \<and>
   calculate (constHost (Returns (Number NaN))) ((initialState (js ''deg''))\<lparr>expr := js ''0/0''\<rparr>) =
     (initialState (js ''deg''))\<lparr>expr := js ''0/0'', display := js ''Math error'',
        errorClass := True, timers := 1\<rparr>"
proof -
  let ?st = "\<lambda>e. (initialState (js ''deg''))\<lparr>expr := e\<rparr>"
  have e: "evalFunction (constHost (Returns (Number PInf))) (functionBody (js ''10/0'')) =
     Returns (Number PInf)"
    by (simp add: constHost_def)
  have c1: "calculate (constHost (Returns (Number PInf))) (?st (js ''10/0'')) =
     (initialState (js ''deg''))\<lparr>expr := js ''10/0'', display := js ''Math error'',
        errorClass := True, timers := 1\<rparr>"
    using calculate_math_error [of "initialState (js ''deg'')" "constHost (Returns (Number PInf))" PInf] e
    by (simp add: showError_def initialState_def)
  have n: "normalizeExpression (js ''0/0'') = js ''0/0''"
    and s: "stripTrailing (js ''0/0'') = js ''0/0''"
    and a: "allowedRE (js ''0/0'')"
    by (simp_all add: calc_eval)
  have c2: "calculate (constHost (Returns (Number NaN))) (?st (js ''0/0'')) =
     (initialState (js ''deg''))\<lparr>expr := js ''0/0'', display := js ''Math error'',
        errorClass := True, timers := 1\<rparr>"
    using calculate_math_error [of "?st (js ''0/0'')" "constHost (Returns (Number NaN))" NaN]
    by (simp add: n s a constHost_def showError_def initialState_def)
  show ?thesis
    by (intro conjI e c1 c2)
qed

text \<open>
  Claim C4. A hanging caret is not removed before the evaluation. The normalisation turns
  \<open>3^\<close> into \<open>3**\<close>, the trailing-operator rule takes one character off, and the body
  given to the evaluator holds \<open>3*\<close>. A JavaScript engine throws a syntax error for that
  body, and \<open>calculate\<close> shows \<open>Error\<close>.
\<close>

theorem calculate_hanging_caret:
  "normalizeExpression (js ''3^'') = js ''3**'' \<and>
   stripTrailing (js ''3**'') = js ''3*'' \<and>
   (evalFunction h (functionBody (js ''3*'')) = Throws \<longrightarrow>
      calculate h (st\<lparr>expr := js ''3^''\<rparr>) = showError (js ''Error'') (st\<lparr>expr := js ''3^''\<rparr>))"
proof (intro conjI impI)
  show n: "normalizeExpression (js ''3^'') = js ''3**''"
    and s: "stripTrailing (js ''3**'') = js ''3*''"
    by (simp_all add: calc_eval)
  have a: "allowedRE (js ''3**'')"
    by (simp add: calc_eval)
  assume "evalFunction h (functionBody (js ''3*'')) = Throws"
  then show "calculate h (st\<lparr>expr := js ''3^''\<rparr>) = showError (js ''Error'') (st\<lparr>expr := js ''3^''\<rparr>)"
    using calculate_throws [of "st\<lparr>expr := js ''3^''\<rparr>" h] by (simp add: n s a)
qed

theorem calculate_hanging_caret_witness:
  "evalFunction (constHost Throws) (functionBody (js ''3*'')) = Throws \<and>
   calculate (constHost Throws) ((initialState (js ''deg''))\<lparr>expr := js ''3^''\<rparr>) =
     (initialState (js ''deg''))\<lparr>expr := js ''3^'', display := js ''Error'',
        errorClass := True, timers := 1\<rparr>"
  using calculate_hanging_caret [of "constHost Throws" "initialState (js ''deg'')"]
  by (simp add: constHost_def showError_def initialState_def)

section \<open>Decimal digits\<close>

lemma digitsOf_digits: "\<forall>c \<in> set (digitsOf n). isDigit c"
proof (induction n rule: digitsOf.induct)
  case (1 n)
  show ?case
  proof (cases "n < 10")
    case True
    then show ?thesis
      by (subst digitsOf.simps) (simp add: isDigit_def)
  next
    case False
    have "n mod 10 < 10" by simp
    then have "isDigit (48 + n mod 10)"
      by (simp add: isDigit_def)
    with False 1 show ?thesis
      by (subst digitsOf.simps) simp
  qed
qed

lemma digitsOf_not_Nil [simp]: "digitsOf n \<noteq> []"
  by (subst digitsOf.simps) simp

lemma digitsValue_append:
  "digitsValue (xs @ ys) = digitsValue xs * 10 ^ length ys + digitsValue ys"
proof -
  define f :: "nat \<Rightarrow> nat \<Rightarrow> nat" where "f = (\<lambda>v c. 10 * v + (c - 48))"
  have ar: "10 * (a * p + F) + d = a * (p * 10) + (10 * F + d)" for a p F d :: nat
    by (simp add: algebra_simps)
  have key: "foldl f a ys = a * 10 ^ length ys + foldl f 0 ys" for a
  proof (induction ys arbitrary: a rule: rev_induct)
    case Nil
    show ?case by simp
  next
    case (snoc y ys)
    have "foldl f a (ys @ [y]) = 10 * foldl f a ys + (y - 48)"
      by (simp add: f_def)
    also have "\<dots> = 10 * (a * 10 ^ length ys + foldl f 0 ys) + (y - 48)"
      by (simp only: snoc [of a])
    also have "\<dots> = a * 10 ^ length (ys @ [y]) + (10 * foldl f 0 ys + (y - 48))"
      using ar [of a "10 ^ length ys" "foldl f 0 ys" "y - 48"] by simp
    also have "10 * foldl f 0 ys + (y - 48) = foldl f 0 (ys @ [y])"
      by (simp add: f_def)
    finally show ?case .
  qed
  show ?thesis
    unfolding digitsValue_def foldl_append using key [of "foldl f 0 xs"]
    by (simp only: f_def)
qed

lemma digitsValue_single [simp]: "digitsValue [c] = c - 48"
  by (simp add: digitsValue_def)

lemma digitsValue_Nil [simp]: "digitsValue [] = 0"
  by (simp add: digitsValue_def)

lemma digitsValue_Cons: "digitsValue (c # cs) = (c - 48) * 10 ^ length cs + digitsValue cs"
  using digitsValue_append [of "[c]" cs] by simp

lemma digitsValue_digitsOf [simp]: "digitsValue (digitsOf n) = n"
proof (induction n rule: digitsOf.induct)
  case (1 n)
  show ?case
  proof (cases "n < 10")
    case True
    then show ?thesis
      by (subst digitsOf.simps) simp
  next
    case False
    with 1 show ?thesis
      by (subst digitsOf.simps) (simp add: digitsValue_append)
  qed
qed

lemma digitsValue_zeros [simp]: "digitsValue (replicate j 48) = 0"
  by (induction j) (simp_all add: digitsValue_Cons)

lemma digitsValue_zeros_append [simp]: "digitsValue (replicate j 48 @ ds) = digitsValue ds"
  by (simp add: digitsValue_append)

lemma digitsValue_append_zeros [simp]: "digitsValue (ds @ replicate j 48) = digitsValue ds * 10 ^ j"
  by (simp add: digitsValue_append)

lemma length_digitsOf:
  assumes "10 ^ k \<le> n" and "n < 10 ^ Suc k"
  shows "length (digitsOf n) = Suc k"
  using assms
proof (induction k arbitrary: n)
  case 0
  then show ?case
    by (subst digitsOf.simps) simp
next
  case (Suc k)
  have "10 \<le> n"
  proof -
    have "(10::nat) * 1 \<le> 10 * 10 ^ k"
      by (rule mult_le_mono2) simp
    also have "\<dots> \<le> n"
      using Suc.prems(1) by simp
    finally show ?thesis by simp
  qed
  moreover have "length (digitsOf (n div 10)) = Suc k"
  proof (rule Suc.IH)
    show "10 ^ k \<le> n div 10"
      using Suc.prems(1) by (simp add: less_eq_div_iff_mult_less_eq mult.commute)
    show "n div 10 < 10 ^ Suc k"
      using Suc.prems(2) by (simp add: div_less_iff_less_mult mult.commute)
  qed
  ultimately show ?case
    by (subst digitsOf.simps) simp
qed

lemma zeros_digits: "\<forall>c \<in> set (replicate j 48). isDigit c"
  by (simp add: isDigit_def)

section \<open>Reading a decimal literal\<close>

lemma takeWhile_dropWhile_stop:
  assumes "\<forall>c \<in> set xs. P c" and "ys = [] \<or> \<not> P (hd ys)"
  shows "takeWhile P (xs @ ys) = xs" and "dropWhile P (xs @ ys) = ys"
proof -
  have t: "takeWhile P ys = []" and d: "dropWhile P ys = ys"
    using assms(2) by (cases ys; simp)+
  show "takeWhile P (xs @ ys) = xs"
    using assms(1) by (simp add: takeWhile_append2 t)
  show "dropWhile P (xs @ ys) = ys"
    using assms(1) by (simp add: dropWhile_append2 d)
qed

lemma exponentPart_Nil [simp]: "exponentPart [] = 0"
  by (simp add: exponentPart_def)

lemma takeWhile_digitsOf [simp]: "takeWhile isDigit (digitsOf m) = digitsOf m"
  using digitsOf_digits by (simp add: takeWhile_eq_all_conv)

lemma exponentPart_exponentText [simp]: "exponentPart (exponentText e) = e"
proof (cases "0 \<le> e")
  case True
  then show ?thesis
    by (simp add: exponentPart_def exponentText_def Let_def)
next
  case False
  then show ?thesis
    by (simp add: exponentPart_def exponentText_def Let_def)
qed

lemma strDecimalLiteral_parts:
  assumes ip: "\<forall>c \<in> set ip. isDigit c" "ip \<noteq> []"
    and fp: "\<forall>c \<in> set fp. isDigit c"
    and fq: "fr = [] \<and> fp = [] \<or> fr = 46 # fp"
    and ex: "ex = [] \<and> e = 0 \<or> ex = exponentText e"
  shows "strDecimalLiteral (ip @ fr @ ex) =
     Some (of_nat (digitsValue (ip @ fp)) / 10 ^ length fp * 10 powi e)"
proof -
  have nd: "\<not> isDigit 46" "\<not> isDigit 101"
    by (simp_all add: isDigit_def)
  have exs: "ex = [] \<or> \<not> isDigit (hd ex)"
    using ex nd by (auto simp: exponentText_def)
  have ee: "exponentPart ex = e"
    using ex by auto
  have stop1: "fr @ ex = [] \<or> \<not> isDigit (hd (fr @ ex))"
    using fq exs nd by auto
  have t1: "takeWhile isDigit (ip @ fr @ ex) = ip"
    and d1: "dropWhile isDigit (ip @ fr @ ex) = fr @ ex"
    using takeWhile_dropWhile_stop [OF ip(1) stop1] by simp_all
  show ?thesis
  proof (cases "fr = []")
    case True
    then have f: "fp = []"
      using fq by auto
    have nodot: "(fr @ ex \<noteq> [] \<and> hd (fr @ ex) = 46) = False"
      using ex True by (auto simp: exponentText_def)
    show ?thesis
      unfolding strDecimalLiteral_def t1 d1 Let_def nodot
      using f ip(2) ee True by simp
  next
    case False
    then have fr_eq: "fr = 46 # fp"
      using fq by auto
    have t2: "takeWhile isDigit (fp @ ex) = fp"
      and d2: "dropWhile isDigit (fp @ ex) = ex"
      using takeWhile_dropWhile_stop [OF fp exs] by simp_all
    show ?thesis
      unfolding strDecimalLiteral_def t1 d1 Let_def using ip(2) ee by (simp add: fr_eq t2 d2)
  qed
qed

lemma parseFloat_unsigned:
  assumes "u \<noteq> []" and "isDigit (hd u)"
  shows "parseFloat u = (case strDecimalLiteral u of None \<Rightarrow> NaN | Some m \<Rightarrow> roundDouble m)"
proof -
  obtain c cs where u: "u = c # cs"
    using assms(1) by (cases u) auto
  have c: "isDigit c"
    using assms(2) u by simp
  then have "\<not> isWhiteSpace c" "c \<noteq> 45" "c \<noteq> 43" "c \<noteq> 73"
    by (auto simp: isDigit_def isWhiteSpace_def)
  then show ?thesis
    by (simp add: parseFloat_def u Let_def js_simps split: option.split)
qed

lemma parseFloat_negative:
  assumes "u \<noteq> []" and "isDigit (hd u)"
  shows "parseFloat (45 # u) = (case strDecimalLiteral u of None \<Rightarrow> NaN | Some m \<Rightarrow> roundDouble (- m))"
proof -
  obtain c cs where u: "u = c # cs"
    using assms(1) by (cases u) auto
  have c: "isDigit c"
    using assms(2) u by simp
  then have "c \<noteq> 73"
    by (auto simp: isDigit_def)
  moreover have "\<not> isWhiteSpace 45"
    by (simp add: isWhiteSpace_def)
  ultimately show ?thesis
    by (simp add: parseFloat_def u Let_def js_simps split: option.split)
qed

section \<open>Binary64 values\<close>

lemma ilog2_bounds:
  assumes "0 < q"
  shows "2 powi ilog2 q \<le> q" and "q < 2 powi (ilog2 q + 1)"
proof -
  have "2 powi ilog2 q \<le> q \<and> q < 2 powi (ilog2 q + 1)"
  proof (cases "1 \<le> q")
    case True
    define z where "z = \<lfloor>q\<rfloor>"
    have z: "1 \<le> z"
      using True by (simp add: z_def le_floor_iff)
    then have zp: "0 < z" by simp
    define e where "e = nat (bitlen z - 1)"
    have b1: "1 \<le> bitlen z"
      using zp bitlen_eq_zero_iff [of z] bitlen_nonneg [of z] by linarith
    then have be: "bitlen z - 1 = int e" and be': "nat (bitlen z) = Suc e"
      by (simp_all add: e_def)
    have lo: "2 ^ e \<le> z" and hi: "z < 2 ^ Suc e"
      using bitlen_bounds [OF zp] by (simp_all add: e_def [symmetric] be')
    have i: "ilog2 q = int e"
      using True by (simp add: ilog2_def z_def [symmetric] be)
    have "(2::rat) ^ e = of_int (2 ^ e)" by simp
    also have "\<dots> \<le> of_int z" using lo by (simp only: of_int_le_iff)
    also have "\<dots> \<le> q" by (simp add: z_def)
    finally have l: "2 ^ e \<le> q" .
    have "z + 1 \<le> 2 ^ Suc e" using hi by simp
    then have "(of_int (z + 1) :: rat) \<le> of_int (2 ^ Suc e)" by (simp only: of_int_le_iff)
    moreover have "q < of_int (z + 1)" using floor_correct [of q] by (simp add: z_def)
    ultimately have h: "q < 2 ^ Suc e" by simp
    have "(2::rat) powi (int e + 1) = 2 ^ Suc e"
      by (simp add: power_int_add)
    with l h show ?thesis
      by (simp add: i)
  next
    case False
    then have q1: "q < 1" by simp
    define c where "c = \<lceil>1 / q\<rceil>"
    have r: "1 < 1 / q"
      using assms q1 by simp
    have c2: "2 \<le> c"
      using r by (simp add: c_def less_ceiling_iff [symmetric] add1_zle_eq [symmetric] del: ceiling_divide_eq_div)
    then have cp: "0 < c - 1" by simp
    define b where "b = nat (bitlen (c - 1))"
    have b1: "1 \<le> bitlen (c - 1)"
      using cp bitlen_eq_zero_iff [of "c - 1"] bitlen_nonneg [of "c - 1"] by linarith
    then have bb: "bitlen (c - 1) = int b" and bp: "0 < b"
      by (simp_all add: b_def)
    obtain b' where b': "b = Suc b'"
      using bp by (cases b) auto
    have nb: "nat (bitlen (c - 1)) = b" and nb1: "nat (bitlen (c - 1) - 1) = b'"
      by (simp_all add: bb b')
    have lo: "2 ^ b' \<le> c - 1" and hi: "c - 1 < 2 ^ b"
      using bitlen_bounds [OF cp] unfolding nb nb1 by simp_all
    have i: "ilog2 q = - int b"
      using False by (simp add: ilog2_def c_def [symmetric] bb)
    have "1 / q \<le> of_int c" by (simp add: c_def)
    also have "\<dots> \<le> of_int (2 ^ b)"
    proof -
      have "c \<le> 2 ^ b" using hi by simp
      then show ?thesis by (simp only: of_int_le_iff)
    qed
    finally have "1 / q \<le> 2 ^ b" by simp
    then have l: "1 / 2 ^ b \<le> q"
      using assms by (simp add: field_simps)
    have "(of_int (2 ^ b') :: rat) \<le> of_int (c - 1)"
      using lo by (simp only: of_int_le_iff)
    moreover have "of_int (c - 1) < 1 / q"
      using ceiling_correct [of "1 / q"] by (simp add: c_def)
    ultimately have "2 ^ b' < 1 / q" by simp
    then have h: "q < 1 / 2 ^ b'"
      using assms by (simp add: field_simps)
    have p1: "(2::rat) powi (- int b) = 1 / 2 ^ b"
      by (simp add: power_int_minus_divide)
    have "- int b + 1 = - int b'"
      by (simp add: b')
    then have p2: "(2::rat) powi (- int b + 1) = 1 / 2 ^ b'"
      by (simp only: power_int_minus_divide power_int_of_nat)
    show ?thesis
      unfolding i p1 p2 using l h by simp
  qed
  then show "2 powi ilog2 q \<le> q" and "q < 2 powi (ilog2 q + 1)"
    by simp_all
qed

lemma ilog2_unique:
  assumes "0 < q" and "2 powi e \<le> q" and "q < 2 powi (e + 1)"
  shows "ilog2 q = e"
proof -
  have "(2::rat) powi ilog2 q < 2 powi (e + 1)"
    using ilog2_bounds(1) [OF assms(1)] assms(3) by simp
  then have 1: "ilog2 q < e + 1"
    by (metis not_less one_less_numeral_iff power_int_increasing semiring_norm(76) less_imp_le)
  have "(2::rat) powi e < 2 powi (ilog2 q + 1)"
    using ilog2_bounds(2) [OF assms(1)] assms(2) by simp
  then have 2: "e < ilog2 q + 1"
    by (metis not_less one_less_numeral_iff power_int_increasing semiring_norm(76) less_imp_le)
  from 1 2 show ?thesis by simp
qed

lemma two_powi_pos [simp]: "0 < (2::rat) powi n"
  by simp

lemma ilog2_scaled:
  assumes "0 < m"
  shows "ilog2 (of_int m * 2 powi t) = bitlen m - 1 + t"
proof (rule ilog2_unique)
  have b1: "1 \<le> bitlen m"
    using assms bitlen_eq_zero_iff [of m] bitlen_nonneg [of m] by linarith
  define e where "e = nat (bitlen m - 1)"
  have be: "bitlen m - 1 = int e" and be': "nat (bitlen m) = Suc e"
    using b1 by (simp_all add: e_def)
  have lo: "2 ^ e \<le> m" and hi: "m < 2 ^ Suc e"
    using bitlen_bounds [OF assms] by (simp_all add: e_def [symmetric] be')
  have l: "(2::rat) ^ e \<le> of_int m"
    using lo by (metis of_int_le_iff of_int_numeral of_int_power)
  have h: "(of_int m :: rat) < 2 ^ Suc e"
    using hi by (metis of_int_less_iff of_int_numeral of_int_power)
  show "0 < (of_int m :: rat) * 2 powi t"
    using assms by simp
  have "(2::rat) powi (bitlen m - 1 + t) = 2 ^ e * 2 powi t"
    by (simp add: be power_int_add)
  also have "\<dots> \<le> of_int m * 2 powi t"
    using l by (simp add: mult_right_mono)
  finally show "2 powi (bitlen m - 1 + t) \<le> (of_int m :: rat) * 2 powi t" .
  have "(of_int m :: rat) * 2 powi t < 2 ^ Suc e * 2 powi t"
    using h by (simp add: mult_strict_right_mono)
  also have "\<dots> = 2 powi (bitlen m - 1 + t + 1)"
    by (simp add: be power_int_add)
  finally show "(of_int m :: rat) * 2 powi t < 2 powi (bitlen m - 1 + t + 1)" .
qed

text \<open>A number with at most 53 significant bits and an exponent in range is a binary64 value.\<close>

lemma roundDouble_representable:
  assumes m: "0 < m" "m < 2 ^ 53" and t: "- 1074 \<le> t"
    and lt: "of_int m * 2 powi t < (2::rat) ^ 1024"
  shows "roundDouble (of_int m * 2 powi t) = Fin (of_int m * 2 powi t)"
proof -
  define w :: rat where "w = of_int m * 2 powi t"
  have wp: "0 < w"
    using m(1) by (simp add: w_def)
  have b1: "1 \<le> bitlen m"
    using m(1) bitlen_eq_zero_iff [of m] bitlen_nonneg [of m] by linarith
  have b2: "bitlen m \<le> 53"
    using m(2) by (simp add: bitlen_le_iff_power)
  define x where "x = max (ilog2 w) (- 1022) - 52"
  have xt: "x \<le> t"
    using b2 t by (simp add: x_def w_def ilog2_scaled [OF m(1)])
  define d where "d = nat (t - x)"
  have td: "t = x + int d"
    using xt by (simp add: d_def)
  have u: "ulp w = 2 powi x"
    by (simp add: ulp_def x_def)
  have pd: "(2::rat) powi t = 2 ^ d * 2 powi x"
    by (subst td) (simp add: power_int_add)
  have "w / ulp w = w / 2 powi x"
    by (simp only: u)
  also have "\<dots> = of_int m * 2 powi t / 2 powi x"
    by (simp only: w_def)
  also have "\<dots> = of_int m * 2 ^ d"
    by (simp add: pd)
  finally have q: "w / ulp w = of_int (m * 2 ^ d)"
    by simp
  have "of_int (roundTiesToEven (w / ulp w)) * ulp w = of_int m * (2 ^ d * 2 powi x)"
    unfolding q roundTiesToEven_of_int by (simp add: u)
  also have "(2::rat) ^ d * 2 powi x = 2 powi t"
    by (simp only: pd)
  finally have v: "of_int (roundTiesToEven (w / ulp w)) * ulp w = w"
    by (simp add: w_def)
  have a: "\<bar>w\<bar> = w"
    using wp by simp
  have "roundDouble w = Fin w"
    unfolding roundDouble_def a Let_def v using wp lt by (simp add: w_def)
  then show ?thesis
    by (simp add: w_def)
qed

lemma roundTiesToEven_le:
  assumes "x \<le> of_int N"
  shows "roundTiesToEven x \<le> N"
proof -
  have f: "\<lfloor>x\<rfloor> \<le> N"
    using assms by (simp add: floor_le_iff)
  show ?thesis
  proof (cases "of_int \<lfloor>x\<rfloor> = x")
    case True
    then have "x - of_int \<lfloor>x\<rfloor> = 0" by (simp only: diff_self)
    then show ?thesis
      using f by (simp add: roundTiesToEven_def Let_def)
  next
    case False
    then have "of_int \<lfloor>x\<rfloor> < x"
      using of_int_floor_le [of x] unfolding less_le by blast
    then have "of_int \<lfloor>x\<rfloor> < (of_int N :: rat)"
      using assms by simp
    then have "\<lfloor>x\<rfloor> < N"
      by (simp only: of_int_less_iff)
    then show ?thesis
      by (simp add: roundTiesToEven_def Let_def)
  qed
qed

lemma roundTiesToEven_nonneg:
  assumes "0 \<le> x"
  shows "0 \<le> roundTiesToEven x"
proof -
  have "0 \<le> \<lfloor>x\<rfloor>"
    using assms by simp
  then show ?thesis
    by (simp add: roundTiesToEven_def Let_def)
qed

lemma roundDouble_magnitude:
  assumes "0 < a"
  shows "\<exists>m. 0 \<le> m \<and> m \<le> 2 ^ 53 \<and>
     of_int (roundTiesToEven (a / ulp a)) * ulp a = of_int m * 2 powi (max (ilog2 a) (- 1022) - 52)"
proof -
  define E where "E = max (ilog2 a) (- 1022)"
  have u: "ulp a = 2 powi (E - 52)"
    by (simp add: ulp_def E_def)
  have "a < 2 powi (ilog2 a + 1)"
    by (rule ilog2_bounds(2) [OF assms])
  also have "\<dots> \<le> 2 powi (E + 1)"
    by (rule power_int_increasing) (simp_all add: E_def)
  also have "\<dots> = 2 ^ 53 * 2 powi (E - 52)"
  proof -
    have "(2::rat) powi (53 + (E - 52)) = 2 powi 53 * 2 powi (E - 52)"
      by (rule power_int_add) simp
    moreover have "53 + (E - 52) = E + 1" by simp
    ultimately have "(2::rat) powi (E + 1) = 2 powi 53 * 2 powi (E - 52)"
      by (simp only:)
    then show ?thesis by simp
  qed
  finally have "a / ulp a < 2 ^ 53"
    by (simp add: u pos_divide_less_eq)
  then have "a / ulp a \<le> of_int (2 ^ 53)"
    by simp
  then have le: "roundTiesToEven (a / ulp a) \<le> 2 ^ 53"
    by (rule roundTiesToEven_le)
  have "0 \<le> a / ulp a"
    using assms by (simp add: u)
  then have ge: "0 \<le> roundTiesToEven (a / ulp a)"
    by (rule roundTiesToEven_nonneg)
  show ?thesis
    using le ge by (intro exI [of _ "roundTiesToEven (a / ulp a)"]) (simp add: u E_def)
qed

lemma roundDouble_magnitude_idem:
  assumes "0 < a"
    and "v = of_int (roundTiesToEven (a / ulp a)) * ulp a" and "\<not> 2 ^ 1024 \<le> v"
  shows "roundDouble v = Fin v"
proof -
  define t where "t = max (ilog2 a) (- 1022) - 52"
  obtain m where m: "0 \<le> m" "m \<le> 2 ^ 53" and v: "v = of_int m * 2 powi t"
    using roundDouble_magnitude [OF assms(1)] assms(2) by (auto simp: t_def)
  have t: "- 1074 \<le> t"
    by (simp add: t_def)
  consider "m = 0" | "0 < m" "m < 2 ^ 53" | "m = 2 ^ 53"
    using m by linarith
  then show ?thesis
  proof cases
    case 1
    then show ?thesis
      by (simp add: v roundDouble_def)
  next
    case 2
    have "of_int m * 2 powi t < (2::rat) ^ 1024"
      using assms(3) v by simp
    from roundDouble_representable [OF 2 t this] show ?thesis
      by (simp add: v)
  next
    case 3
    have e: "v = of_int (2 ^ 52) * 2 powi (t + 1)"
    proof -
      have "(2::rat) powi (t + 1) = 2 powi t * 2"
        by (simp add: power_int_add)
      then show ?thesis
        by (simp add: v 3)
    qed
    have "of_int (2 ^ 52) * 2 powi (t + 1) < (2::rat) ^ 1024"
      using assms(3) e by simp
    moreover have "- 1074 \<le> t + 1"
      using t by simp
    ultimately have "roundDouble (of_int (2 ^ 52) * 2 powi (t + 1)) = Fin (of_int (2 ^ 52) * 2 powi (t + 1))"
      by (intro roundDouble_representable) simp_all
    then show ?thesis
      by (simp only: e)
  qed
qed

text \<open>Rounding commutes with the change of sign.\<close>

lemma roundDouble_minus: "roundDouble (- q) = fneg (roundDouble q)"
  by (simp add: roundDouble_def Let_def)

text \<open>The result of a rounding is a binary64 value.\<close>

lemma isNumber_roundDouble: "isNumber (roundDouble q)"
proof (cases "q = 0")
  case True
  then show ?thesis
    by (simp add: isNumber_def roundDouble_def)
next
  case False
  define v where "v = of_int (roundTiesToEven (\<bar>q\<bar> / ulp \<bar>q\<bar>)) * ulp \<bar>q\<bar>"
  have rd: "roundDouble q =
      (if 2 ^ 1024 \<le> v then (if 0 < q then PInf else NInf) else Fin (if 0 < q then v else - v))"
    unfolding roundDouble_def Let_def v_def using False by simp
  show ?thesis
  proof (cases "2 ^ 1024 \<le> v")
    case True
    then show ?thesis
      by (simp add: isNumber_def rd)
  next
    case nov: False
    have a: "0 < \<bar>q\<bar>"
      using False by simp
    have i: "roundDouble v = Fin v"
      using roundDouble_magnitude_idem [OF a v_def nov] .
    show ?thesis
      using nov by (simp add: isNumber_def rd roundDouble_minus i)
  qed
qed

section \<open>The digits that \<open>Number::toString\<close> chooses\<close>

lemma decimalExponent_bounds:
  assumes "0 < q"
  shows "10 powi (decimalExponent q - 1) \<le> q" and "q < 10 powi decimalExponent q"
proof -
  have "10 powi (decimalExponent q - 1) \<le> q \<and> q < 10 powi decimalExponent q"
  proof (cases "1 \<le> q")
    case True
    define z where "z = nat \<lfloor>q\<rfloor>"
    have z1: "1 \<le> \<lfloor>q\<rfloor>"
      using True by (simp add: le_floor_iff)
    then have zp: "0 < z" by (simp add: z_def)
    have zq: "of_nat z = (of_int \<lfloor>q\<rfloor> :: rat)"
      using z1 by (simp add: z_def)
    define L where "L = floorlog 10 z"
    have "Suc 0 \<le> floorlog 10 z"
      by (rule floorlog_ge_SucI) (use zp in simp_all)
    then obtain L' where L': "L = Suc L'"
      by (cases L) (auto simp: L_def)
    have lo: "10 ^ L' \<le> z" and hi: "z < 10 ^ L"
      using floorlog_bounds [of z 10] zp by (simp_all add: L_def [symmetric] L')
    have i: "decimalExponent q = int L"
      using True by (simp add: decimalExponent_def z_def L_def)
    have "(10::rat) ^ L' = of_nat (10 ^ L')" by simp
    also have "\<dots> \<le> of_nat z" using lo by (simp only: of_nat_le_iff)
    also have "\<dots> \<le> q" by (simp add: zq)
    finally have l: "10 ^ L' \<le> q" .
    have "z + 1 \<le> 10 ^ L" using hi by simp
    then have "(of_nat (z + 1) :: rat) \<le> of_nat (10 ^ L)" by (simp only: of_nat_le_iff)
    moreover have "q < of_nat (z + 1)" using floor_correct [of q] by (simp add: zq)
    ultimately have h: "q < 10 ^ L" by simp
    have "int L - 1 = int L'" by (simp add: L')
    then have "(10::rat) powi (int L - 1) = 10 ^ L'"
      by (simp only: power_int_of_nat)
    with l h show ?thesis
      by (simp add: i)
  next
    case False
    then have q1: "q < 1" by simp
    define c where "c = \<lceil>1 / q\<rceil>"
    have r: "1 < 1 / q"
      using assms q1 by simp
    have c2: "2 \<le> c"
      using r by (simp add: c_def less_ceiling_iff [symmetric] add1_zle_eq [symmetric] del: ceiling_divide_eq_div)
    define y where "y = nat (c - 1)"
    have yp: "0 < y" using c2 by (simp add: y_def)
    have yc: "of_nat y = (of_int (c - 1) :: rat)"
      using c2 by (simp add: y_def)
    define L where "L = floorlog 10 y"
    have "Suc 0 \<le> floorlog 10 y"
      by (rule floorlog_ge_SucI) (use yp in simp_all)
    then obtain L' where L': "L = Suc L'"
      by (cases L) (auto simp: L_def)
    have lo: "10 ^ L' \<le> y" and hi: "y < 10 ^ L"
      using floorlog_bounds [of y 10] yp by (simp_all add: L_def [symmetric] L')
    have i: "decimalExponent q = 1 - int L"
      using False by (simp add: decimalExponent_def c_def y_def L_def)
    have "1 / q \<le> of_int c" by (simp add: c_def)
    also have "\<dots> = of_nat (y + 1)" using yc by simp
    also have "\<dots> \<le> of_nat (10 ^ L)"
    proof -
      have "y + 1 \<le> 10 ^ L" using hi by simp
      then show ?thesis by (simp only: of_nat_le_iff)
    qed
    finally have "1 / q \<le> 10 ^ L" by simp
    then have l: "1 / 10 ^ L \<le> q"
      using assms by (simp add: field_simps)
    have "(of_nat (10 ^ L') :: rat) \<le> of_nat y"
      using lo by (simp only: of_nat_le_iff)
    moreover have "of_int (c - 1) < 1 / q"
      using ceiling_correct [of "1 / q"] by (simp add: c_def)
    ultimately have "10 ^ L' < 1 / q" by (simp add: yc)
    then have h: "q < 1 / 10 ^ L'"
      using assms by (simp add: field_simps)
    have "1 - int L - 1 = - int L" by simp
    then have p1: "(10::rat) powi (1 - int L - 1) = 1 / 10 ^ L"
      by (simp only: power_int_minus_divide power_int_of_nat)
    have "1 - int L = - int L'" by (simp add: L')
    then have p2: "(10::rat) powi (1 - int L) = 1 / 10 ^ L'"
      by (simp only: power_int_minus_divide power_int_of_nat)
    show ?thesis
      unfolding i p1 p2 using l h by simp
  qed
  then show "10 powi (decimalExponent q - 1) \<le> q" and "q < 10 powi decimalExponent q"
    by simp_all
qed

lemma candidate_sound:
  assumes "candidate q n k = Some s"
  shows "roundDouble (of_int s * 10 powi (n - int k)) = Fin q"
  using assms unfolding candidate_def Let_def by (auto split: if_splits)

lemma candidate_floor:
  assumes "candidate q n k = Some s"
  shows "s = \<lfloor>q / 10 powi (n - int k)\<rfloor> \<or> s = \<lfloor>q / 10 powi (n - int k)\<rfloor> + 1"
  using assms unfolding candidate_def Let_def by (auto split: if_splits)

lemma candidate_range:
  assumes q: "10 powi (n - 1) \<le> q" "q < 10 powi n" and k: "k = Suc k'"
    and c: "candidate q n k = Some s"
  shows "10 ^ k' \<le> s" and "s \<le> 10 ^ k"
proof -
  define x where "x = q / 10 powi (n - int k)"
  have sp: "0 < (10::rat) powi (n - int k)" by simp
  have "(10::rat) powi (n - 1) = 10 ^ k' * 10 powi (n - int k)"
  proof -
    have "n - 1 = int k' + (n - int k)" by (simp add: k)
    then show ?thesis
      by (metis power_int_add power_int_of_nat zero_neq_numeral)
  qed
  then have lo: "10 ^ k' \<le> x"
    using q(1) sp by (simp add: x_def pos_le_divide_eq)
  have "(10::rat) powi n = 10 ^ k * 10 powi (n - int k)"
  proof -
    have "n = int k + (n - int k)" by simp
    then show ?thesis
      by (metis power_int_add power_int_of_nat zero_neq_numeral)
  qed
  then have hi: "x < 10 ^ k"
    using q(2) sp by (simp add: x_def pos_divide_less_eq)
  have fl: "10 ^ k' \<le> \<lfloor>x\<rfloor>"
  proof -
    have "(of_int (10 ^ k') :: rat) \<le> x" using lo by simp
    then show ?thesis by (simp only: le_floor_iff)
  qed
  have fh: "\<lfloor>x\<rfloor> < 10 ^ k"
  proof -
    have "x < (of_int (10 ^ k) :: rat)" using hi by simp
    then show ?thesis by (simp only: floor_less_iff)
  qed
  from candidate_floor [OF c] fl fh show "10 ^ k' \<le> s" and "s \<le> 10 ^ k"
    by (auto simp: x_def)
qed

lemma digitsOf_length_bounds:
  "0 < s \<Longrightarrow> 10 ^ (length (digitsOf s) - 1) \<le> s \<and> s < 10 ^ length (digitsOf s)"
proof (induction s rule: digitsOf.induct)
  case (1 n)
  show ?case
  proof (cases "n < 10")
    case True
    then show ?thesis
      using "1.prems" by (simp add: digitsOf.simps [of n])
  next
    case False
    define L where "L = length (digitsOf (n div 10))"
    have d: "0 < n div 10" using False by (simp add: div_greater_zero_iff)
    have ih: "10 ^ (L - 1) \<le> n div 10 \<and> n div 10 < 10 ^ L"
      using "1.IH" [OF False d] by (simp add: L_def)
    have Lp: "0 < L" by (simp add: L_def)
    then obtain L' where L': "L = Suc L'" by (cases L) auto
    have len: "length (digitsOf n) = Suc L"
      using False by (simp add: digitsOf.simps [of n] L_def)
    have "10 * 10 ^ L' \<le> 10 * (n div 10)" using ih by (simp add: L')
    also have "\<dots> \<le> n" by simp
    finally have lo: "10 ^ L \<le> n" by (simp add: L')
    have "n div 10 + 1 \<le> 10 ^ L" using ih by simp
    then have "10 * (n div 10 + 1) \<le> 10 * 10 ^ L" by (simp only: mult_le_mono2)
    moreover have "n < 10 * (n div 10 + 1)" by presburger
    ultimately have hi: "n < 10 ^ Suc L" by simp
    show ?thesis using lo hi by (simp add: len)
  qed
qed

lemma representable_form:
  assumes "roundDouble q = Fin q" and "0 < q"
  obtains m t where "- 1074 \<le> t" and "q = of_int m * 2 powi t"
proof -
  define t where "t = max (ilog2 q) (- 1022) - 52"
  define m where "m = roundTiesToEven (q / ulp q)"
  have a: "\<bar>q\<bar> = q" using assms(2) by simp
  have "q = of_int m * 2 powi t"
    using assms unfolding roundDouble_def Let_def a
    by (simp add: m_def t_def ulp_def split: if_splits)
  moreover have "- 1074 \<le> t" by (simp add: t_def)
  ultimately show thesis using that by blast
qed

lemma representable_decimal:
  assumes "roundDouble q = Fin q" and "0 < q" and N: "int N = 1074"
  shows "of_int \<lfloor>q * 10 ^ N\<rfloor> = q * 10 ^ N"
proof -
  obtain m t where t: "- 1074 \<le> t" and q: "q = of_int m * 2 powi t"
    using representable_form [OF assms(1,2)] by blast
  define u where "u = nat (t + 1074)"
  have "t = int u + (- int N)" using t by (simp add: u_def N)
  then have "(2::rat) powi t = 2 powi (int u) * 2 powi (- int N)"
    by (metis power_int_add zero_neq_numeral)
  then have p: "(2::rat) powi t = 2 ^ u / 2 ^ N"
    by (simp only: power_int_of_nat power_int_minus_divide) simp
  have "(10::rat) ^ N = 2 ^ N * 5 ^ N"
    by (simp only: power_mult_distrib [symmetric]) simp
  then have "q * 10 ^ N = of_int m * 2 ^ u * 5 ^ N"
    unfolding q p by simp
  also have "\<dots> = of_int (m * 2 ^ u * 5 ^ N)" by simp
  finally have "q * 10 ^ N = of_int (m * 2 ^ u * 5 ^ N)" .
  then show ?thesis by (simp only: floor_of_int)
qed

lemma decimalPlaces_finds:
  assumes "j \<le> J" and "J \<le> j + fuel" and "of_int \<lfloor>q * 10 ^ J\<rfloor> = q * 10 ^ J"
  shows "of_int \<lfloor>q * 10 ^ decimalPlaces q j fuel\<rfloor> = q * 10 ^ decimalPlaces q j fuel"
  using assms
proof (induction fuel arbitrary: j)
  case 0
  then show ?case by simp
next
  case (Suc fuel)
  show ?case
  proof (cases "of_int \<lfloor>q * 10 ^ j\<rfloor> = q * 10 ^ j")
    case True
    then show ?thesis by simp
  next
    case False
    then have "J \<noteq> j" using Suc.prems(3) by auto
    then have "j + 1 \<le> J" "J \<le> (j + 1) + fuel" using Suc.prems by simp_all
    from Suc.IH [OF this Suc.prems(3)] False show ?thesis by simp
  qed
qed

lemma exactDigits_sound:
  assumes r: "roundDouble q = Fin q" and p: "0 < q" and e: "exactDigits q = (n, k, s)"
  shows "length (digitsOf s) = k" and "of_nat s * 10 powi (n - int k) = q"
proof -
  define N :: nat where "N = 1074"
  have N: "int N = 1074" by (simp add: N_def)
  define j where "j = decimalPlaces q 0 N"
  have i: "of_int \<lfloor>q * 10 ^ j\<rfloor> = q * 10 ^ j"
    unfolding j_def
    by (rule decimalPlaces_finds [where J = N]) (simp_all add: representable_decimal [OF r p N])
  have "exactDigits q = (int (length (digitsOf (nat \<lfloor>q * 10 ^ j\<rfloor>))) - int j,
      length (digitsOf (nat \<lfloor>q * 10 ^ j\<rfloor>)), nat \<lfloor>q * 10 ^ j\<rfloor>)"
    unfolding exactDigits_def Let_def j_def N_def ..
  then have s: "s = nat \<lfloor>q * 10 ^ j\<rfloor>" and k: "k = length (digitsOf s)" and n: "n = int k - int j"
    using e by simp_all
  show "length (digitsOf s) = k" by (simp add: k)
  have "0 \<le> q * 10 ^ j" using p by simp
  then have "0 \<le> \<lfloor>q * 10 ^ j\<rfloor>" by (simp only: zero_le_floor)
  then have "(of_nat s :: rat) = of_int \<lfloor>q * 10 ^ j\<rfloor>" by (simp add: s)
  then have v: "of_nat s = q * 10 ^ j" by (simp only: i)
  have "n - int k = - int j" by (simp add: n)
  then have "(10::rat) powi (n - int k) = 1 / 10 ^ j"
    by (simp only: power_int_minus_divide power_int_of_nat)
  then show "of_nat s * 10 powi (n - int k) = q"
    by (simp add: v)
qed

lemma shortest_sound:
  assumes r: "roundDouble q = Fin q" and p: "0 < q"
    and b: "10 powi (n0 - 1) \<le> q" "q < 10 powi n0"
  shows "1 \<le> k0 \<Longrightarrow> shortest q n0 k0 fuel = (n, k, s) \<Longrightarrow>
    length (digitsOf s) = k \<and> roundDouble (of_nat s * 10 powi (n - int k)) = Fin q"
proof (induction fuel arbitrary: k0)
  case 0
  then have "exactDigits q = (n, k, s)" by simp
  from exactDigits_sound [OF r p this] r show ?case by simp
next
  case (Suc fuel)
  obtain k' where k': "k0 = Suc k'" using Suc.prems(1) by (cases k0) auto
  show ?case
  proof (cases "candidate q n0 k0")
    case None
    then have "shortest q n0 (k0 + 1) fuel = (n, k, s)" using Suc.prems(2) by simp
    then show ?thesis by (rule Suc.IH [rotated]) simp
  next
    case (Some c)
    note rng = candidate_range [OF b k' Some]
    note snd = candidate_sound [OF Some]
    show ?thesis
    proof (cases "c = 10 ^ k0")
      case True
      then have res: "n = n0 + 1" "k = k0" "s = 10 ^ k'"
        using Suc.prems(2) Some by (simp_all add: k')
      have len: "length (digitsOf s) = k"
        unfolding res by (simp add: k' length_digitsOf)
      have "n0 + 1 - int k0 = 1 + (n0 - int k0)" by simp
      then have "(10::rat) powi (n0 + 1 - int k0) = 10 * 10 powi (n0 - int k0)"
        by (metis power_int_add power_int_1_right zero_neq_numeral)
      then have "of_nat s * (10::rat) powi (n - int k) = of_int c * 10 powi (n0 - int k0)"
        unfolding res True by (simp add: k')
      with snd len show ?thesis by simp
    next
      case False
      then have res: "n = n0" "k = k0" "s = nat c"
        using Suc.prems(2) Some by simp_all
      have "(0::int) \<le> 10 ^ k'" by simp
      then have c0: "0 \<le> c" using rng(1) by (rule order_trans)
      have "10 ^ k' \<le> nat c"
        using rng(1) c0 by (simp add: le_nat_iff)
      moreover have "nat c < 10 ^ Suc k'"
        using rng(2) False c0 unfolding k' by (simp add: nat_less_iff)
      ultimately have len: "length (digitsOf s) = k"
        unfolding res k' by (rule length_digitsOf)
      have "(of_nat s :: rat) = of_int c" using c0 by (simp add: res)
      with snd len show ?thesis by (simp add: res)
    qed
  qed
qed

section \<open>Reading back what \<open>Number::toString\<close> writes\<close>

lemma ten_powi_neg: "(10::rat) powi (- int j) = 1 / 10 ^ j"
  by (simp only: power_int_minus_divide power_int_of_nat)

lemma ten_powi_diff: "a = b + c \<Longrightarrow> (10::rat) powi a = 10 powi b * 10 powi c"
  by (metis power_int_add zero_neq_numeral)

lemma literal_integer:
  assumes "\<forall>c \<in> set ds. isDigit c" and "ds \<noteq> []"
  shows "strDecimalLiteral (ds @ replicate j 48) =
    Some (of_nat (digitsValue ds) * 10 powi (int j))"
proof -
  have d: "\<forall>c \<in> set (ds @ replicate j 48). isDigit c"
    using assms(1) by (auto simp: isDigit_def)
  have "strDecimalLiteral ((ds @ replicate j 48) @ [] @ []) =
      Some (of_nat (digitsValue ((ds @ replicate j 48) @ [])) / 10 ^ length ([] :: jsstring) * 10 powi 0)"
    by (rule strDecimalLiteral_parts) (use d assms(2) in simp_all)
  then show ?thesis by simp
qed

lemma literal_point:
  assumes "\<forall>c \<in> set ds. isDigit c" and "0 < m" and "m < length ds"
  shows "strDecimalLiteral (take m ds @ 46 # drop m ds) =
    Some (of_nat (digitsValue ds) * 10 powi (int m - int (length ds)))"
proof -
  have t: "\<forall>c \<in> set (take m ds). isDigit c" and d: "\<forall>c \<in> set (drop m ds). isDigit c"
    using assms(1) by (auto dest: in_set_takeD in_set_dropD)
  have ne: "take m ds \<noteq> []" using assms(2,3) by auto
  have "strDecimalLiteral (take m ds @ (46 # drop m ds) @ []) =
      Some (of_nat (digitsValue (take m ds @ drop m ds)) / 10 ^ length (drop m ds) * 10 powi 0)"
    by (rule strDecimalLiteral_parts) (use t d ne in simp_all)
  then have "strDecimalLiteral (take m ds @ 46 # drop m ds) =
      Some (of_nat (digitsValue ds) * (1 / 10 ^ (length ds - m)))"
    by simp
  moreover have "int m - int (length ds) = - int (length ds - m)"
    using assms(3) by simp
  then have "(10::rat) powi (int m - int (length ds)) = 1 / 10 ^ (length ds - m)"
    by (simp only: ten_powi_neg)
  ultimately show ?thesis
    by (simp only:)
qed

lemma literal_small:
  assumes "\<forall>c \<in> set ds. isDigit c"
  shows "strDecimalLiteral (48 # 46 # replicate j 48 @ ds) =
    Some (of_nat (digitsValue ds) * 10 powi (- int j - int (length ds)))"
proof -
  have d: "\<forall>c \<in> set (replicate j 48 @ ds). isDigit c"
    using assms by (auto simp: isDigit_def)
  have z: "\<forall>c \<in> set [48]. isDigit c" by (simp add: isDigit_def)
  have "strDecimalLiteral ([48] @ (46 # replicate j 48 @ ds) @ []) =
      Some (of_nat (digitsValue ([48] @ replicate j 48 @ ds)) / 10 ^ length (replicate j 48 @ ds) * 10 powi 0)"
    by (rule strDecimalLiteral_parts) (use d z in simp_all)
  moreover have "digitsValue ([48] @ replicate j 48 @ ds) = digitsValue ds"
    by (simp add: digitsValue_Cons)
  ultimately have "strDecimalLiteral (48 # 46 # replicate j 48 @ ds) =
      Some (of_nat (digitsValue ds) * (1 / 10 ^ (j + length ds)))"
    by simp
  moreover have "- int j - int (length ds) = - int (j + length ds)"
    by simp
  then have "(10::rat) powi (- int j - int (length ds)) = 1 / 10 ^ (j + length ds)"
    by (simp only: ten_powi_neg)
  ultimately show ?thesis
    by (simp only:)
qed

lemma literal_exponent:
  assumes "\<forall>c \<in> set ds. isDigit c" and "ds \<noteq> []"
  shows "strDecimalLiteral (ds @ exponentText e) = Some (of_nat (digitsValue ds) * 10 powi e)"
proof -
  have "strDecimalLiteral (ds @ [] @ exponentText e) =
      Some (of_nat (digitsValue (ds @ [])) / 10 ^ length ([] :: jsstring) * 10 powi e)"
    by (rule strDecimalLiteral_parts) (use assms in simp_all)
  then show ?thesis by simp
qed

lemma literal_point_exponent:
  assumes "\<forall>c \<in> set ds. isDigit c" and "1 < length ds"
  shows "strDecimalLiteral (take 1 ds @ 46 # drop 1 ds @ exponentText e) =
    Some (of_nat (digitsValue ds) * 10 powi (e + 1 - int (length ds)))"
proof -
  have t: "\<forall>c \<in> set (take 1 ds). isDigit c" and d: "\<forall>c \<in> set (drop 1 ds). isDigit c"
    using assms(1) by (auto dest: in_set_takeD in_set_dropD)
  have ne: "take 1 ds \<noteq> []" using assms(2) by auto
  have "strDecimalLiteral (take 1 ds @ (46 # drop 1 ds) @ exponentText e) =
      Some (of_nat (digitsValue (take 1 ds @ drop 1 ds)) / 10 ^ length (drop 1 ds) * 10 powi e)"
    by (rule strDecimalLiteral_parts) (use t d ne in simp_all)
  then have "strDecimalLiteral (take 1 ds @ 46 # drop 1 ds @ exponentText e) =
      Some (of_nat (digitsValue ds) * (1 / 10 ^ (length ds - 1) * 10 powi e))"
    by simp
  moreover have "(10::rat) powi (e + 1 - int (length ds)) = 10 powi (- int (length ds - 1)) * 10 powi e"
    by (rule ten_powi_diff) (use assms(2) in simp)
  then have "(10::rat) powi (e + 1 - int (length ds)) = 1 / 10 ^ (length ds - 1) * 10 powi e"
    by (simp only: ten_powi_neg)
  ultimately show ?thesis
    by (simp only:)
qed

lemma positiveToString_cases:
  assumes "shortest q (decimalExponent q) 1 17 = (n, k, s)"
  shows "positiveToString q =
     (if int k \<le> n \<and> n \<le> 21 then digitsOf s @ replicate (nat (n - int k)) 48
      else if 0 < n \<and> n \<le> 21 then take (nat n) (digitsOf s) @ 46 # drop (nat n) (digitsOf s)
      else if - 6 < n \<and> n \<le> 0 then 48 # 46 # replicate (nat (- n)) 48 @ digitsOf s
      else if k = 1 then digitsOf s @ exponentText (n - 1)
      else take 1 (digitsOf s) @ 46 # drop 1 (digitsOf s) @ exponentText (n - 1))"
  unfolding positiveToString_def assms Let_def prod.case exponentText_def
  by (simp add: js_simps)

lemma positiveToString_reads:
  assumes r: "roundDouble q = Fin q" and p: "0 < q"
  shows "positiveToString q \<noteq> []" and "isDigit (hd (positiveToString q))"
    and "\<exists>v. strDecimalLiteral (positiveToString q) = Some v \<and> roundDouble v = Fin q"
proof -
  obtain n k s where sh: "shortest q (decimalExponent q) 1 17 = (n, k, s)"
    by (cases "shortest q (decimalExponent q) 1 17") auto
  have "length (digitsOf s) = k \<and> roundDouble (of_nat s * 10 powi (n - int k)) = Fin q"
    by (rule shortest_sound [OF r p decimalExponent_bounds [OF p] _ sh]) simp
  then have len: "length (digitsOf s) = k"
    and val: "roundDouble (of_nat s * 10 powi (n - int k)) = Fin q"
    by simp_all
  define ds where "ds = digitsOf s"
  have dg: "\<forall>c \<in> set ds. isDigit c" and ne: "ds \<noteq> []" and dv: "digitsValue ds = s"
    and l: "length ds = k"
    using digitsOf_digits by (simp_all add: ds_def len)
  have h: "isDigit (hd ds)" using dg ne by (cases ds) auto
  have k1: "1 \<le> k" using ne l by (cases ds) auto
  have h1: "isDigit (hd (take m ds))" if "0 < m" for m
    using h ne that by (cases ds; cases m) auto
  note str = positiveToString_cases [OF sh, folded ds_def]
  have "positiveToString q \<noteq> [] \<and> isDigit (hd (positiveToString q)) \<and>
    strDecimalLiteral (positiveToString q) = Some (of_nat s * 10 powi (n - int k))"
  proof -
    consider (A) "int k \<le> n \<and> n \<le> 21"
      | (B) "\<not> (int k \<le> n \<and> n \<le> 21)" "0 < n \<and> n \<le> 21"
      | (C) "\<not> (int k \<le> n \<and> n \<le> 21)" "\<not> (0 < n \<and> n \<le> 21)" "- 6 < n \<and> n \<le> 0"
      | (D1) "\<not> (int k \<le> n \<and> n \<le> 21)" "\<not> (0 < n \<and> n \<le> 21)" "\<not> (- 6 < n \<and> n \<le> 0)" "k = 1"
      | (D2) "\<not> (int k \<le> n \<and> n \<le> 21)" "\<not> (0 < n \<and> n \<le> 21)" "\<not> (- 6 < n \<and> n \<le> 0)" "k \<noteq> 1"
      by blast
    then show ?thesis
    proof cases
      case A
      then have s: "positiveToString q = ds @ replicate (nat (n - int k)) 48"
        by (simp only: str if_P)
      have "int (nat (n - int k)) = n - int k" using A by simp
      with literal_integer [OF dg ne, of "nat (n - int k)"] show ?thesis
        unfolding s using ne h by (simp add: dv)
    next
      case B
      have s: "positiveToString q = take (nat n) ds @ 46 # drop (nat n) ds"
        by (simp only: str if_not_P [OF B(1)] if_P [OF B(2)])
      have m: "0 < nat n" "nat n < length ds" using B unfolding l by linarith+
      have "int (nat n) - int (length ds) = n - int k" using B by (simp add: l)
      with literal_point [OF dg m] show ?thesis
        unfolding s using ne h1 [OF m(1)] m by (simp add: dv)
    next
      case C
      have s: "positiveToString q = 48 # 46 # replicate (nat (- n)) 48 @ ds"
        by (simp only: str if_not_P [OF C(1)] if_not_P [OF C(2)] if_P [OF C(3)])
      have "- int (nat (- n)) - int (length ds) = n - int k" using C by (simp add: l)
      with literal_small [OF dg, of "nat (- n)"] show ?thesis
        unfolding s by (simp add: dv isDigit_def)
    next
      case D1
      have s: "positiveToString q = ds @ exponentText (n - 1)"
        by (simp only: str if_not_P [OF D1(1)] if_not_P [OF D1(2)] if_not_P [OF D1(3)]
            if_P [OF D1(4)])
      from literal_exponent [OF dg ne, of "n - 1"] show ?thesis
        unfolding s using ne h D1(4) by (simp add: dv)
    next
      case D2
      have s: "positiveToString q = take 1 ds @ 46 # drop 1 ds @ exponentText (n - 1)"
        by (simp only: str if_not_P [OF D2(1)] if_not_P [OF D2(2)] if_not_P [OF D2(3)]
            if_not_P [OF D2(4)])
      have k2: "1 < length ds" using D2(4) k1 by (simp add: l)
      have "n - 1 + 1 - int (length ds) = n - int k" by (simp add: l)
      with literal_point_exponent [OF dg k2, of "n - 1"] show ?thesis
        unfolding s using ne h1 [of 1] by (simp add: dv)
    qed
  qed
  with val show "positiveToString q \<noteq> []" and "isDigit (hd (positiveToString q))"
    and "\<exists>v. strDecimalLiteral (positiveToString q) = Some v \<and> roundDouble v = Fin q"
    by simp_all
qed

text \<open>Text made by \<open>toString\<close> from a Number reads back as that Number.\<close>

lemma parseFloat_numToString:
  assumes "isNumber x"
  shows "parseFloat (numToString x) = x"
proof (cases x)
  case (Fin q)
  then have r: "roundDouble q = Fin q"
    using assms by (simp add: isNumber_def)
  consider "q = 0" | "0 < q" | "q < 0" by linarith
  then show ?thesis
  proof cases
    case 1
    then show ?thesis
      by (simp add: Fin numToString_def parse_eval roundDouble_def)
  next
    case 2
    from positiveToString_reads [OF r 2] parseFloat_unsigned [of "positiveToString q"]
    show ?thesis
      using 2 by (auto simp: Fin numToString_def)
  next
    case 3
    have "roundDouble (- q) = fneg (Fin q)"
      by (simp only: roundDouble_minus r)
    then have r': "roundDouble (- q) = Fin (- q)" by simp
    have p: "0 < - q" using 3 by simp
    obtain v where v: "strDecimalLiteral (positiveToString (- q)) = Some v"
      "roundDouble v = Fin (- q)"
      using positiveToString_reads(3) [OF r' p] by blast
    have "roundDouble (- v) = fneg (Fin (- q))"
      by (simp only: roundDouble_minus v(2))
    then have "roundDouble (- v) = Fin q" by simp
    with positiveToString_reads(1,2) [OF r' p] parseFloat_negative [of "positiveToString (- q)"] v
    show ?thesis
      using 3 by (simp add: Fin numToString_def js_simps)
  qed
next
  case PInf
  then show ?thesis by (simp add: numToString_def parse_eval parseFloat_def)
next
  case NInf
  then show ?thesis by (simp add: numToString_def parse_eval parseFloat_def)
next
  case NaN
  then show ?thesis by (simp add: numToString_def parse_eval parseFloat_def)
qed

section \<open>The result formatter\<close>

lemma ten_powi_less:
  assumes "(10::rat) powi a < 10 powi b"
  shows "a < b"
proof (rule ccontr)
  assume "\<not> a < b"
  then have "b \<le> a" by simp
  then have "(10::rat) powi b \<le> 10 powi a"
    by (rule power_int_increasing) simp
  with assms show False by simp
qed

lemma two_powi_less:
  assumes "(2::rat) powi a < 2 powi b"
  shows "a < b"
proof (rule ccontr)
  assume "\<not> a < b"
  then have "b \<le> a" by simp
  then have "(2::rat) powi b \<le> 2 powi a"
    by (rule power_int_increasing) simp
  with assms show False by simp
qed

lemma decimalPlaces_hit:
  "of_int \<lfloor>q * 10 ^ j\<rfloor> = q * 10 ^ j \<Longrightarrow> decimalPlaces q j fuel = j"
  by (cases fuel) simp_all

lemma roundDouble_ten_21: "roundDouble (10 ^ 21) = Fin (10 ^ 21)"
proof -
  have "roundDouble (of_int 476837158203125 * 2 powi 21) = Fin (of_int 476837158203125 * 2 powi 21)"
    by (rule roundDouble_representable) simp_all
  moreover have "(of_int 476837158203125 :: rat) * 2 powi 21 = 10 ^ 21"
    by simp
  ultimately show ?thesis by (simp only:)
qed

lemma candidate_exact:
  assumes "roundDouble q = Fin q" and "of_int \<lfloor>q\<rfloor> = q" and "0 \<le> n"
  shows "candidate q n (nat n) \<noteq> None"
proof -
  have "n - int (nat n) = 0" using assms(3) by simp
  then show ?thesis
    unfolding candidate_def Let_def by (simp add: assms(1,2))
qed

lemma shortest_integer:
  assumes r: "roundDouble q = Fin q" and p: "0 < q" and i: "of_int \<lfloor>q\<rfloor> = q"
    and u: "q < 10 ^ 21" and b: "10 powi (n0 - 1) \<le> q" "q < 10 powi n0"
  shows "1 \<le> k0 \<Longrightarrow> int k0 \<le> n0 \<Longrightarrow> shortest q n0 k0 fuel = (n, k, s) \<Longrightarrow>
    int k \<le> n \<and> n \<le> 21"
proof (induction fuel arbitrary: k0)
  case 0
  have dp: "decimalPlaces q 0 1074 = 0"
    by (rule decimalPlaces_hit) (simp add: i)
  have e: "exactDigits q = (n, k, s)" using 0 by simp
  have "exactDigits q = (int (length (digitsOf (nat \<lfloor>q\<rfloor>))) - int 0,
      length (digitsOf (nat \<lfloor>q\<rfloor>)), nat \<lfloor>q\<rfloor>)"
    unfolding exactDigits_def dp Let_def by simp
  with e have s: "s = nat \<lfloor>q\<rfloor>" and k: "k = length (digitsOf s)" and n: "n = int k"
    by auto
  have z: "0 < \<lfloor>q\<rfloor>"
    using p i by (metis of_int_0_less_iff)
  then have sp: "0 < s" by (simp add: s)
  have sq: "(of_nat s :: rat) = q" using z i by (simp add: s)
  have "(of_nat s :: rat) < of_nat (10 ^ 21)" using u by (simp add: sq)
  then have "s < 10 ^ 21" by (simp only: of_nat_less_iff)
  moreover have "10 ^ (k - 1) \<le> s"
    using digitsOf_length_bounds [OF sp] by (simp add: k)
  ultimately have "(10::nat) ^ (k - 1) < 10 ^ 21" by simp
  then have "k - 1 < 21" by (simp only: power_strict_increasing_iff) 
  then show ?case by (simp add: n)
next
  case (Suc fuel)
  have "(10::rat) powi (n0 - 1) < 10 powi 21"
    using b(1) u by simp
  then have n21: "n0 \<le> 21"
    using ten_powi_less [of "n0 - 1" 21] by simp
  show ?case
  proof (cases "candidate q n0 k0")
    case None
    have "int k0 \<noteq> n0"
    proof
      assume "int k0 = n0"
      then have "k0 = nat n0" "0 \<le> n0" by simp_all
      with candidate_exact [OF r i, of n0] None show False by simp
    qed
    then have "int (k0 + 1) \<le> n0" using Suc.prems(2) by simp
    moreover have "shortest q n0 (k0 + 1) fuel = (n, k, s)"
      using Suc.prems(3) None by simp
    ultimately show ?thesis
      using Suc.IH [of "k0 + 1"] by simp
  next
    case (Some c)
    show ?thesis
    proof (cases "c = 10 ^ k0")
      case True
      then have res: "n = n0 + 1" "k = k0"
        using Suc.prems(3) Some by simp_all
      have "n0 \<noteq> 21"
      proof
        assume n0: "n0 = 21"
        have "(10::rat) powi 21 = 10 powi (int k0) * 10 powi (21 - int k0)"
          by (rule ten_powi_diff) simp
        then have "of_int c * (10::rat) powi (n0 - int k0) = 10 ^ 21"
          unfolding True n0 by (simp only: power_int_of_nat of_int_power of_int_numeral)
             (simp add: power_int_def)
        with candidate_sound [OF Some] roundDouble_ten_21 have "q = 10 ^ 21"
          by simp
        with u show False by simp
      qed
      with n21 Suc.prems(2) show ?thesis by (simp add: res)
    next
      case False
      then have res: "n = n0" "k = k0"
        using Suc.prems(3) Some by simp_all
      with n21 Suc.prems(2) show ?thesis by simp
    qed
  qed
qed

lemma positiveToString_integer:
  assumes r: "roundDouble q = Fin q" and p: "0 < q" and i: "of_int \<lfloor>q\<rfloor> = q"
    and u: "q < 10 ^ 21"
  shows "\<forall>c \<in> set (positiveToString q). isDigit c"
proof -
  obtain n k s where sh: "shortest q (decimalExponent q) 1 17 = (n, k, s)"
    by (cases "shortest q (decimalExponent q) 1 17") auto
  note b = decimalExponent_bounds [OF p]
  have "0 < \<lfloor>q\<rfloor>"
    using p i by (metis of_int_0_less_iff)
  then have "1 \<le> \<lfloor>q\<rfloor>" by simp
  then have "1 \<le> q" using i by (metis of_int_1_le_iff)
  then have "(10::rat) powi 0 < 10 powi decimalExponent q"
    using b(2) by simp
  then have "0 < decimalExponent q" by (rule ten_powi_less)
  then have "int 1 \<le> decimalExponent q" by simp
  from shortest_integer [OF r p i u b _ this sh]
  have c: "int k \<le> n \<and> n \<le> 21" by simp
  have "positiveToString q = digitsOf s @ replicate (nat (n - int k)) 48"
    by (simp only: positiveToString_cases [OF sh] if_P [OF c])
  then show ?thesis
    using digitsOf_digits by (auto simp: isDigit_def)
qed

lemma isNumber_minus:
  assumes "roundDouble q = Fin q"
  shows "roundDouble (- q) = Fin (- q)"
proof -
  have "roundDouble (- q) = fneg (Fin q)"
    by (simp only: roundDouble_minus assms)
  then show ?thesis by simp
qed

lemma numToString_integer:
  assumes r: "isNumber (Fin q)" and i: "isInteger (Fin q)" and u: "\<bar>q\<bar> < 10 ^ 21"
  shows "\<exists>ds. ds \<noteq> [] \<and> (\<forall>c \<in> set ds. isDigit c) \<and>
    numToString (Fin q) = (if q < 0 then 45 # ds else ds)"
proof -
  have r': "roundDouble q = Fin q" using r by (simp add: isNumber_def)
  have i': "of_int \<lfloor>q\<rfloor> = q" using i by (simp add: isInteger_def)
  consider "q = 0" | "0 < q" | "q < 0" by linarith
  then show ?thesis
  proof cases
    case 1
    then show ?thesis
      by (simp add: numToString_def js_simps isDigit_def)
  next
    case 2
    then have "q < 10 ^ 21" using u by simp
    from positiveToString_integer [OF r' 2 i' this] positiveToString_reads(1) [OF r' 2]
    show ?thesis using 2 by (auto simp: numToString_def)
  next
    case 3
    then have p: "0 < - q" and u': "- q < 10 ^ 21" using u by simp_all
    have "of_int \<lfloor>- q\<rfloor> = - q"
      by (metis i' floor_of_int of_int_minus)
    from positiveToString_integer [OF isNumber_minus [OF r'] p this u']
      positiveToString_reads(1) [OF isNumber_minus [OF r'] p]
    show ?thesis using 3 by (auto simp: numToString_def js_simps)
  qed
qed

text \<open>A binary64 value from \<open>2^52\<close> on is an integer.\<close>

lemma large_is_integer:
  assumes r: "roundDouble q = Fin q" and l: "2 ^ 52 \<le> q"
  shows "of_int \<lfloor>q\<rfloor> = q"
proof -
  have p: "0 < q"
    by (rule less_le_trans [OF _ l]) simp
  define t where "t = max (ilog2 q) (- 1022) - 52"
  define m where "m = roundTiesToEven (q / ulp q)"
  have a: "\<bar>q\<bar> = q" using p by simp
  have q: "q = of_int m * 2 powi t"
    using r p unfolding roundDouble_def Let_def a
    by (simp add: m_def t_def ulp_def split: if_splits)
  have "(2::rat) powi 52 < 2 powi (ilog2 q + 1)"
    using l ilog2_bounds(2) [OF p] by simp
  then have "52 < ilog2 q + 1" by (rule two_powi_less)
  then have "0 \<le> t" by (simp add: t_def)
  then have "(2::rat) powi t = 2 ^ nat t" by (simp add: power_int_def)
  then have "q = of_int (m * 2 ^ nat t)" by (simp add: q)
  then show ?thesis by (metis floor_of_int)
qed

lemma parseFloat_toFixed:
  assumes u: "\<bar>q\<bar> < 10 ^ 21" and f: "0 < f"
  shows "parseFloat (toFixed (Fin q) f) = roundedTo f q"
proof -
  define N where "N = nat \<lfloor>\<bar>q\<bar> * 10 ^ f + 1 / 2\<rfloor>"
  define padded where "padded = replicate (f + 1 - length (digitsOf N)) 48 @ digitsOf N"
  define m where "m = take (length padded - f) padded @ 46 # drop (length padded - f) padded"
  have tf: "toFixed (Fin q) f = (if q < 0 then [45] else []) @ m"
    using u f unfolding toFixed_def Let_def N_def padded_def m_def
    by (simp add: js_simps)
  have dg: "\<forall>c \<in> set padded. isDigit c"
    using digitsOf_digits by (auto simp: padded_def isDigit_def)
  have len: "f + 1 \<le> length padded"
    by (simp add: padded_def)
  then have k: "0 < length padded - f" "length padded - f < length padded"
    using f by simp_all
  have dv: "digitsValue padded = N"
    by (simp add: padded_def)
  have "int (length padded - f) - int (length padded) = - int f"
    using len by simp
  then have "(10::rat) powi (int (length padded - f) - int (length padded)) = 1 / 10 ^ f"
    by (simp only: ten_powi_neg)
  with literal_point [OF dg k]
  have lit: "strDecimalLiteral m = Some (of_nat N * (1 / 10 ^ f))"
    by (simp only: m_def dv)
  have ne: "m \<noteq> []" by (simp add: m_def)
  have "padded \<noteq> []" using len by auto
  then have "isDigit (hd (take (length padded - f) padded))"
    using dg k(1) by (cases padded; cases "length padded - f") auto
  moreover have "take (length padded - f) padded \<noteq> []"
    using k \<open>padded \<noteq> []\<close> by simp
  ultimately have hd: "isDigit (hd m)"
    by (simp add: m_def)
  have "0 \<le> \<bar>q\<bar> * 10 ^ f + 1 / 2" by simp
  then have "0 \<le> \<lfloor>\<bar>q\<bar> * 10 ^ f + 1 / 2\<rfloor>" by (simp only: zero_le_floor)
  then have Nv: "(of_nat N :: rat) = of_int \<lfloor>\<bar>q\<bar> * 10 ^ f + 1 / 2\<rfloor>"
    by (simp add: N_def)
  show ?thesis
  proof (cases "q < 0")
    case True
    from parseFloat_negative [OF ne hd] lit
    have "parseFloat (45 # m) = roundDouble (- (of_nat N * (1 / 10 ^ f)))" by simp
    then show ?thesis
      using True by (simp add: tf roundedTo_def Nv)
  next
    case False
    from parseFloat_unsigned [OF ne hd] lit
    have "parseFloat m = roundDouble (of_nat N * (1 / 10 ^ f))" by simp
    then show ?thesis
      using False by (simp add: tf roundedTo_def Nv)
  qed
qed

lemma isNumber_roundedTo: "isNumber (roundedTo p q)"
  unfolding roundedTo_def by (rule isNumber_roundDouble)

lemma formatResultWith_spec:
  assumes r: "isNumber (Fin q)" and f: "0 < p"
  shows "isInteger (Fin q) \<Longrightarrow> \<bar>q\<bar> < 10 ^ 21 \<Longrightarrow>
      \<exists>ds. ds \<noteq> [] \<and> (\<forall>c \<in> set ds. isDigit c) \<and>
        formatResultWith p (Fin q) = (if q < 0 then 45 # ds else ds)"
    and "\<not> isInteger (Fin q) \<Longrightarrow> formatResultWith p (Fin q) = numToString (roundedTo p q)"
    and "parseFloat (formatResultWith p (Fin q)) =
      (if isInteger (Fin q) then Fin q else roundedTo p q)"
proof -
  have r': "roundDouble q = Fin q" using r by (simp add: isNumber_def)
  have small: "\<bar>q\<bar> < 10 ^ 21" if n: "\<not> isInteger (Fin q)"
  proof (rule ccontr)
    assume "\<not> \<bar>q\<bar> < 10 ^ 21"
    then have big: "(10::rat) ^ 21 \<le> \<bar>q\<bar>" by simp
    have "(2::rat) ^ 52 \<le> 10 ^ 21" by simp
    with big have l: "2 ^ 52 \<le> \<bar>q\<bar>" by (rule order_trans [rotated])
    have ra: "roundDouble \<bar>q\<bar> = Fin \<bar>q\<bar>"
      using r' isNumber_minus [OF r'] by (cases "q < 0") simp_all
    have "of_int \<lfloor>\<bar>q\<bar>\<rfloor> = \<bar>q\<bar>"
      by (rule large_is_integer [OF ra l])
    then have "of_int \<lfloor>q\<rfloor> = q"
      by (cases "q < 0"; simp) (metis floor_of_int of_int_minus minus_minus)
    with n show False by (simp add: isInteger_def)
  qed
  show "\<exists>ds. ds \<noteq> [] \<and> (\<forall>c \<in> set ds. isDigit c) \<and>
        formatResultWith p (Fin q) = (if q < 0 then 45 # ds else ds)"
    if "isInteger (Fin q)" "\<bar>q\<bar> < 10 ^ 21"
    using numToString_integer [OF r that] that(1) by (simp add: formatResultWith_def)
  show n: "formatResultWith p (Fin q) = numToString (roundedTo p q)" if "\<not> isInteger (Fin q)"
    using that parseFloat_toFixed [OF small [OF that] f] by (simp add: formatResultWith_def)
  show "parseFloat (formatResultWith p (Fin q)) =
      (if isInteger (Fin q) then Fin q else roundedTo p q)"
  proof (cases "isInteger (Fin q)")
    case True
    then show ?thesis
      using parseFloat_numToString [OF r] by (simp add: formatResultWith_def)
  next
    case False
    then show ?thesis
      using parseFloat_numToString [OF isNumber_roundedTo [of p q]] by (simp add: n)
  qed
qed

text \<open>
  Claim C9 as it is stated fails in two places. The integer \<open>1.5 \<times> 10^21\<close> is
  rendered as \<open>1.5e+21\<close>, with a decimal point: from \<open>10^21\<close> on, \<open>toString\<close>
  writes exponent notation. The non-integer \<open>2^-20\<close>, which is
  \<open>0.00000095367431640625\<close>, rounded to 12 places and stripped of its zeros would read
  \<open>0.000000953674\<close>; the code renders the rounded Number by \<open>toString\<close>, which below
  \<open>10^-6\<close> writes exponent notation, and gives \<open>9.53674e-7\<close> (the basic script, with
  10 places, \<open>9.537e-7\<close>).
\<close>

theorem formatResult_exponent_notation:
  "isNumber (Fin 1500000000000000000000) \<and> isInteger (Fin 1500000000000000000000)
   \<and> formatResult (Fin 1500000000000000000000) = js ''1.5e+21''
   \<and> formatResult_basic (Fin 1500000000000000000000) = js ''1.5e+21''
   \<and> isNumber (Fin (1 / 2 ^ 20)) \<and> \<not> isInteger (Fin (1 / 2 ^ 20))
   \<and> formatResult (Fin (1 / 2 ^ 20)) = js ''9.53674e-7''
   \<and> formatResult_basic (Fin (1 / 2 ^ 20)) = js ''9.537e-7''"
proof -
  have n1: "isNumber (Fin 1500000000000000000000)"
    by (simp add: isNumber_def num_eval)
  have i1: "isInteger (Fin 1500000000000000000000)"
    by (simp add: isInteger_def)
  have s1: "numToString (Fin 1500000000000000000000) = js ''1.5e+21''"
    by (simp add: num_eval str_eval)
  have f1: "formatResult (Fin 1500000000000000000000) = js ''1.5e+21''"
    "formatResult_basic (Fin 1500000000000000000000) = js ''1.5e+21''"
    using i1 s1 by (simp_all add: formatResult_def formatResult_basic_def formatResultWith_def)
  have n2: "isNumber (Fin (1 / 2 ^ 20))"
    by (simp add: isNumber_def num_eval)
  have "\<lfloor>1 / 1048576 :: rat\<rfloor> = 0"
    by (simp add: floor_eq_iff)
  then have i2: "\<not> isInteger (Fin (1 / 2 ^ 20))"
    by (simp add: isInteger_def)
  have t2: "toFixed (Fin (1 / 2 ^ 20)) 12 = js ''0.000000953674''"
    "toFixed (Fin (1 / 2 ^ 20)) 10 = js ''0.0000009537''"
    by (simp_all add: toFixed_def num_eval str_eval)
  have v2: "numToString (parseFloat (js ''0.000000953674'')) = js ''9.53674e-7''"
    by (simp add: parse_eval num_eval str_eval)
  have w2: "numToString (parseFloat (js ''0.0000009537'')) = js ''9.537e-7''"
    by (simp add: parse_eval num_eval str_eval)
  have f2: "formatResult (Fin (1 / 2 ^ 20)) = js ''9.53674e-7''"
    "formatResult_basic (Fin (1 / 2 ^ 20)) = js ''9.537e-7''"
    using i2 t2 v2 w2
    by (simp_all only: formatResult_def formatResult_basic_def formatResultWith_def if_False)
  show ?thesis
    by (intro conjI n1 i1 f1 n2 i2 f2)
qed

text \<open>
  Claim C9, amended. For a finite Number \<open>n\<close>: an integer \<open>n\<close> below \<open>10^21\<close> in
  magnitude is rendered with digits only, after a minus sign when it is negative, and the
  same by both scripts; a non-integer \<open>n\<close> is rendered as \<open>toString\<close> renders the
  rounded value, which is \<open>n\<close> rounded to 12 decimal places (10 in the basic script) and
  from there to the nearest Number; and the output, read by \<open>parseFloat\<close>, is the value
  that was rendered: \<open>n\<close> for an integer, the rounded value otherwise.
\<close>

theorem formatResult_spec:
  assumes "isNumber (Fin q)"
  shows "(isInteger (Fin q) \<and> \<bar>q\<bar> < 10 ^ 21 \<longrightarrow>
       (\<exists>ds. ds \<noteq> [] \<and> (\<forall>c \<in> set ds. isDigit c)
          \<and> formatResult (Fin q) = (if q < 0 then 45 # ds else ds)
          \<and> formatResult_basic (Fin q) = formatResult (Fin q)))
    \<and> (\<not> isInteger (Fin q) \<longrightarrow>
       formatResult (Fin q) = numToString (roundedTo 12 q)
       \<and> formatResult_basic (Fin q) = numToString (roundedTo 10 q))
    \<and> parseFloat (formatResult (Fin q)) = (if isInteger (Fin q) then Fin q else roundedTo 12 q)
    \<and> parseFloat (formatResult_basic (Fin q)) =
        (if isInteger (Fin q) then Fin q else roundedTo 10 q)"
proof -
  have p: "0 < (12::nat)" "0 < (10::nat)" by simp_all
  note a = formatResultWith_spec [OF assms p(1), folded formatResult_def]
  note b = formatResultWith_spec [OF assms p(2), folded formatResult_basic_def]
  have same: "formatResult_basic (Fin q) = formatResult (Fin q)" if "isInteger (Fin q)"
    using that by (simp add: formatResult_def formatResult_basic_def formatResultWith_def)
  show ?thesis
    using a b same by auto
qed

text \<open>The amended claim at \<open>0.125\<close> and at \<open>-15\<close>.\<close>

theorem formatResult_spec_witness:
  "isNumber (Fin (1 / 8)) \<and> \<not> isInteger (Fin (1 / 8))
   \<and> formatResult (Fin (1 / 8)) = js ''0.125''
   \<and> roundedTo 12 (1 / 8) = Fin (1 / 8)
   \<and> parseFloat (js ''0.125'') = Fin (1 / 8)
   \<and> isNumber (Fin (- 15)) \<and> isInteger (Fin (- 15))
   \<and> formatResult (Fin (- 15)) = js ''-15''
   \<and> hd (formatResult (Fin (- 15))) = 45
   \<and> parseFloat (js ''-15'') = Fin (- 15)"
proof -
  have n1: "isNumber (Fin (1 / 8))"
    by (simp add: isNumber_def num_eval)
  have "\<lfloor>1 / 8 :: rat\<rfloor> = 0"
    by (simp add: floor_eq_iff)
  then have i1: "\<not> isInteger (Fin (1 / 8))"
    by (simp add: isInteger_def)
  have r1: "roundedTo 12 (1 / 8) = Fin (1 / 8)"
    by (simp add: roundedTo_def num_eval)
  have s1: "numToString (Fin (1 / 8)) = js ''0.125''"
    by (simp add: num_eval str_eval)
  from formatResult_spec [OF n1] i1
  have "formatResult (Fin (1 / 8)) = numToString (roundedTo 12 (1 / 8))"
    by blast
  then have f1: "formatResult (Fin (1 / 8)) = js ''0.125''"
    by (simp only: r1 s1)
  from formatResult_spec [OF n1]
  have "parseFloat (formatResult (Fin (1 / 8))) =
      (if isInteger (Fin (1 / 8)) then Fin (1 / 8) else roundedTo 12 (1 / 8))"
    by blast
  then have p1: "parseFloat (js ''0.125'') = Fin (1 / 8)"
    by (simp only: f1 i1 if_False r1)
  have n2: "isNumber (Fin (- 15))"
    by (simp add: isNumber_def num_eval)
  have i2: "isInteger (Fin (- 15))"
    by (simp add: isInteger_def)
  have f2: "formatResult (Fin (- 15)) = js ''-15''"
    by (simp add: formatResult_def formatResultWith_def i2 num_eval str_eval)
  from formatResult_spec [OF n2]
  have "parseFloat (formatResult (Fin (- 15))) =
      (if isInteger (Fin (- 15)) then Fin (- 15) else roundedTo 12 (- 15))"
    by blast
  then have p2: "parseFloat (js ''-15'') = Fin (- 15)"
    by (simp only: f2 i2 if_True)
  from formatResult_spec [OF n2] i2
  obtain ds where "formatResult (Fin (- 15)) = (if (- 15 :: rat) < 0 then 45 # ds else ds)"
    by auto
  then have h2: "hd (formatResult (Fin (- 15))) = 45"
    by simp
  show ?thesis
    by (intro conjI n1 i1 f1 r1 p1 n2 i2 f2 h2 p2)
qed

end
